theory Spec2Isabelle
  imports Main "HOL-Library.List_Lexorder" "HOL-Library.Char_ord"
begin

section \<open>JavaScript values, JSON and the host library\<close>

text \<open>
  Keys are JavaScript strings; \<open>key1 < key2\<close> in the source compares code units
  lexicographically, which is the order of \<^typ>\<open>string\<close> given by the lexicographic
  list order over the character order. Characters are limited to the code units 0..255.

  A symbol is either taken from the global registry (\<^verbatim>\<open>Symbol.for(name)\<close>, the same
  symbol for the same name everywhere) or created by a call of \<^verbatim>\<open>Symbol(desc)\<close>, which
  makes a symbol different from every other one; the number identifies the call.
\<close>

datatype symbol = SymbolFor string | SymbolNew nat

text \<open>
  What a file can hold after \<^verbatim>\<open>JSON.stringify\<close> and gives back through
  \<^verbatim>\<open>JSON.parse\<close>: a string, or any other plain datum (number, boolean, null, array,
  object), which is identified with its JSON text.
\<close>

datatype json = Str string | Data string

datatype jsval = Undefined | Sym symbol | Val json

datatype error =
    TypeError          \<comment> \<open>property access on undefined, \<^verbatim>\<open>undefined.length\<close>\<close>
  | EmptySSTable       \<comment> \<open>\<^verbatim>\<open>Error('Cannot write empty SSTable')\<close>\<close>
  | ENOENT             \<comment> \<open>a file that does not exist is opened or unlinked\<close>
  | SyntaxError        \<comment> \<open>\<^verbatim>\<open>JSON.parse\<close> of bytes that are not the expected JSON\<close>

text \<open>sstable-reader.js and sstable-writer.js: \<^verbatim>\<open>const TOMBSTONE = Symbol.for('TOMBSTONE')\<close>.\<close>

definition TOMBSTONE :: jsval where
  "TOMBSTONE = Sym (SymbolFor ''TOMBSTONE'')"

text \<open>memtable.js: \<^verbatim>\<open>MemTable.TOMBSTONE = Symbol('TOMBSTONE')\<close>, the only call of
  \<^verbatim>\<open>Symbol(...)\<close> in the program.\<close>

definition MemTable_TOMBSTONE :: jsval where
  "MemTable_TOMBSTONE = Sym (SymbolNew 0)"

subsection \<open>JSON text (only its length is observed, by the block builder and the offsets)\<close>

definition hex_digit :: "nat \<Rightarrow> char" where
  "hex_digit n = ''0123456789abcdef'' ! (n mod 16)"

definition json_escape_char :: "char \<Rightarrow> string" where
  "json_escape_char c =
     (if c = CHR 0x22 then [CHR 0x5C, CHR 0x22]
      else if c = CHR 0x5C then [CHR 0x5C, CHR 0x5C]
      else if c = CHR 0x08 then [CHR 0x5C, CHR ''b'']
      else if c = CHR 0x0C then [CHR 0x5C, CHR ''f'']
      else if c = CHR 0x0A then [CHR 0x5C, CHR ''n'']
      else if c = CHR 0x0D then [CHR 0x5C, CHR ''r'']
      else if c = CHR 0x09 then [CHR 0x5C, CHR ''t'']
      else if (of_char c :: nat) < 32
        then [CHR 0x5C, CHR ''u'', CHR ''0'', CHR ''0'',
              hex_digit ((of_char c :: nat) div 16), hex_digit (of_char c :: nat)]
      else [c])"

definition json_string :: "string \<Rightarrow> string" where
  "json_string s = CHR 0x22 # concat (map json_escape_char s) @ [CHR 0x22]"

fun decimal :: "nat \<Rightarrow> string" where
  "decimal n =
     (if n < 10 then [hex_digit n] else decimal (n div 10) @ [hex_digit (n mod 10)])"

declare decimal.simps [simp del]

fun json_text :: "json \<Rightarrow> string" where
  "json_text (Str s) = json_string s"
| "json_text (Data t) = t"

text \<open>\<^verbatim>\<open>JSON.stringify(v)\<close> is \<^verbatim>\<open>undefined\<close> for \<^verbatim>\<open>undefined\<close> and for a symbol.\<close>

fun JSON_stringify :: "jsval \<Rightarrow> string option" where
  "JSON_stringify Undefined = None"
| "JSON_stringify (Sym s) = None"
| "JSON_stringify (Val j) = Some (json_text j)"

text \<open>
  The value of a property after \<^verbatim>\<open>JSON.parse(JSON.stringify(obj))\<close>: a property whose value
  is \<^verbatim>\<open>undefined\<close> or a symbol is left out by \<^verbatim>\<open>JSON.stringify\<close> (\<open>None\<close>), and reading a
  property that is not there gives \<^verbatim>\<open>undefined\<close>.
\<close>

fun to_json :: "jsval \<Rightarrow> json option" where
  "to_json Undefined = None"
| "to_json (Sym s) = None"
| "to_json (Val j) = Some j"

fun of_json :: "json option \<Rightarrow> jsval" where
  "of_json None = Undefined"
| "of_json (Some j) = Val j"

text \<open>\<^verbatim>\<open>Buffer.from(text).length\<close>: the UTF-8 length, two bytes for a code unit from 128.\<close>

definition utf8_length :: "string \<Rightarrow> nat" where
  "utf8_length s = sum_list (map (\<lambda>c. if (of_char c :: nat) < 128 then 1 else 2) s)"

subsection \<open>The insertion-ordered \<^verbatim>\<open>Map\<close>\<close>

type_synonym 'v jsmap = "(string \<times> 'v) list"

fun Map_set :: "string \<Rightarrow> 'v \<Rightarrow> 'v jsmap \<Rightarrow> 'v jsmap" where
  "Map_set k v [] = [(k, v)]"
| "Map_set k v ((k', v') # m) = (if k' = k then (k, v) # m else (k', v') # Map_set k v m)"

definition Map_delete :: "string \<Rightarrow> 'v jsmap \<Rightarrow> 'v jsmap" where
  "Map_delete k m = filter (\<lambda>p. fst p \<noteq> k) m"

definition Map_has :: "string \<Rightarrow> 'v jsmap \<Rightarrow> bool" where
  "Map_has k m = (map_of m k \<noteq> None)"

text \<open>
  \<^verbatim>\<open>array.sort((a, b) => a.key.localeCompare(b.key))\<close>. \<^verbatim>\<open>localeCompare\<close> is the collation
  of the host's locale and is a parameter here. The sort is stable; for a comparator that
  is a total preorder the result is the one of this stable insertion sort.
\<close>

fun insert_by :: "(string \<Rightarrow> string \<Rightarrow> int) \<Rightarrow> string \<times> 'v \<Rightarrow> (string \<times> 'v) list
    \<Rightarrow> (string \<times> 'v) list" where
  "insert_by lc e [] = [e]"
| "insert_by lc e (x # xs) =
     (if lc (fst e) (fst x) < 0 then e # x # xs else x # insert_by lc e xs)"

definition sort_by_key :: "(string \<Rightarrow> string \<Rightarrow> int) \<Rightarrow> (string \<times> 'v) list
    \<Rightarrow> (string \<times> 'v) list" where
  "sort_by_key lc xs = foldl (\<lambda>acc e. insert_by lc e acc) [] xs"

section \<open>Step 2: the write-ahead log (wal.js)\<close>

text \<open>
  The log file is a sequence of lines. A line is represented by what \<^verbatim>\<open>recover\<close> makes of
  it: blank (dropped by \<^verbatim>\<open>filter(line => line.trim())\<close>), a text on which
  \<^verbatim>\<open>JSON.parse\<close> or the access to \<^verbatim>\<open>entry.op\<close> throws, or an object with its \<^verbatim>\<open>op\<close>,
  \<^verbatim>\<open>key\<close> and \<^verbatim>\<open>value\<close> (the timestamp \<^verbatim>\<open>ts\<close> is never read).
\<close>

datatype wal_line = Blank | Corrupt string | Record string string "json option"

text \<open>\<^verbatim>\<open>logSet\<close> and \<^verbatim>\<open>logDelete\<close> append one line (\<^verbatim>\<open>_appendEntry\<close>).\<close>

definition logSet :: "string \<Rightarrow> jsval \<Rightarrow> wal_line list \<Rightarrow> wal_line list" where
  "logSet k v ls = ls @ [Record ''SET'' k (to_json v)]"

definition logDelete :: "string \<Rightarrow> wal_line list \<Rightarrow> wal_line list" where
  "logDelete k ls = ls @ [Record ''DELETE'' k None]"

text \<open>
  The body of the loop of \<^verbatim>\<open>recover\<close>: the state is the \<^verbatim>\<open>store\<close> map and the diagnostics
  printed by \<^verbatim>\<open>console.error\<close> (the two counters only feed a log message).
\<close>

fun replay_line :: "jsval jsmap \<times> string list \<Rightarrow> wal_line \<Rightarrow> jsval jsmap \<times> string list" where
  "replay_line (store, diag) (Record opn k v) =
     (if opn = ''SET'' then (Map_set k (of_json v) store, diag)
      else if opn = ''DELETE'' then (Map_delete k store, diag)
      else (store, diag))"
| "replay_line (store, diag) (Corrupt line) = (store, diag @ [line])"
| "replay_line (store, diag) Blank = (store, diag)"

definition WriteAheadLog_recover :: "wal_line list option \<Rightarrow> jsval jsmap \<times> string list" where
  "WriteAheadLog_recover file =
     (case file of
        None \<Rightarrow> ([], [])
      | Some content \<Rightarrow> foldl replay_line ([], []) (filter (\<lambda>l. l \<noteq> Blank) content))"

section \<open>Step 3: skip list and MemTable (skiplist.js, memtable.js)\<close>

text \<open>
  The skip list is represented by its level-0 chain, the list of nodes in ascending key
  order. The higher levels are subsequences of that chain used to reach a position faster;
  every operation ends on the level-0 chain at the first node whose key is not less than
  the target, which is what the functions below search for. The random node heights have
  no effect on any result.
\<close>

type_synonym SkipList = "(string \<times> jsval) list"

fun SkipList_set :: "string \<Rightarrow> jsval \<Rightarrow> SkipList \<Rightarrow> SkipList" where
  "SkipList_set k v [] = [(k, v)]"
| "SkipList_set k v ((k', v') # xs) =
     (if k' < k then (k', v') # SkipList_set k v xs
      else if k' = k then (k', v) # xs
      else (k, v) # (k', v') # xs)"

fun SkipList_get :: "string \<Rightarrow> SkipList \<Rightarrow> jsval" where
  "SkipList_get k [] = Undefined"
| "SkipList_get k ((k', v') # xs) =
     (if k' < k then SkipList_get k xs
      else if k' = k then v'
      else Undefined)"

definition SkipList_range :: "string \<Rightarrow> string \<Rightarrow> SkipList \<Rightarrow> (string \<times> jsval) list" where
  "SkipList_range startKey endKey xs =
     takeWhile (\<lambda>p. fst p \<le> endKey) (dropWhile (\<lambda>p. fst p < startKey) xs)"

record MemTable =
  skipList :: SkipList
  maxSizeBytes :: nat
  currentSizeBytes :: int

definition MemTable_new :: "nat \<Rightarrow> MemTable" where
  "MemTable_new maxSize = \<lparr>skipList = [], maxSizeBytes = maxSize, currentSizeBytes = 0\<rparr>"

text \<open>\<^verbatim>\<open>_estimateSize\<close>: \<^verbatim>\<open>JSON.stringify(value).length\<close> throws when the value is
  \<^verbatim>\<open>undefined\<close> or a symbol other than the MemTable's own tombstone.\<close>

definition MemTable_estimateSize :: "string \<Rightarrow> jsval \<Rightarrow> error + int" where
  "MemTable_estimateSize k v =
     (if v = MemTable_TOMBSTONE then Inr (int (length k) * 2 + 8 + 64)
      else case v of
        Val (Str s) \<Rightarrow> Inr (int (length k) * 2 + int (length s) * 2 + 64)
      | _ \<Rightarrow> (case JSON_stringify v of
                None \<Rightarrow> Inl TypeError
              | Some t \<Rightarrow> Inr (int (length k) * 2 + int (length t) * 2 + 64)))"

definition MemTable_shouldFlush :: "MemTable \<Rightarrow> bool" where
  "MemTable_shouldFlush m = (currentSizeBytes m \<ge> int (maxSizeBytes m))"

text \<open>\<^verbatim>\<open>MemTable.set\<close> returns the new table and whether it should be flushed.\<close>

definition MemTable_set :: "string \<Rightarrow> jsval \<Rightarrow> MemTable \<Rightarrow> error + (MemTable \<times> bool)" where
  "MemTable_set k v m =
     (case MemTable_estimateSize k v of
        Inl e \<Rightarrow> Inl e
      | Inr entrySize \<Rightarrow>
          (let existingValue = SkipList_get k (skipList m) in
           case (if existingValue \<noteq> Undefined
                 then (case MemTable_estimateSize k existingValue of
                         Inl e \<Rightarrow> Inl e
                       | Inr old \<Rightarrow> Inr (currentSizeBytes m - old))
                 else Inr (currentSizeBytes m)) of
             Inl e \<Rightarrow> Inl e
           | Inr sz \<Rightarrow>
               (let m' = m\<lparr>skipList := SkipList_set k v (skipList m),
                           currentSizeBytes := sz + entrySize\<rparr>
                in Inr (m', MemTable_shouldFlush m'))))"

definition MemTable_delete :: "string \<Rightarrow> MemTable \<Rightarrow> error + (MemTable \<times> bool)" where
  "MemTable_delete k m = MemTable_set k MemTable_TOMBSTONE m"

definition MemTable_get :: "string \<Rightarrow> MemTable \<Rightarrow> jsval" where
  "MemTable_get k m = SkipList_get k (skipList m)"

definition MemTable_range :: "string \<Rightarrow> string \<Rightarrow> MemTable \<Rightarrow> (string \<times> jsval) list" where
  "MemTable_range startKey endKey m = SkipList_range startKey endKey (skipList m)"

definition MemTable_entries :: "MemTable \<Rightarrow> (string \<times> jsval) list" where
  "MemTable_entries m = skipList m"

section \<open>Step 4: sorted tables (sstable-writer.js, sstable-reader.js)\<close>

subsection \<open>The file and the disk\<close>

record footer =
  indexOffset :: nat
  indexSize :: nat
  blockCount :: nat
  entryCount :: nat
  minKey :: string
  maxKey :: string
  magic :: string

record index_entry =
  startKey :: string
  endKey :: string
  offset :: nat
  size' :: nat

text \<open>
  A table file is the sequence of the buffers written to it: the data blocks, the index,
  the footer (the trailing four bytes hold the footer's length, which is how the reader
  finds the footer from the end). Each buffer is kept as its length in bytes and what
  \<^verbatim>\<open>JSON.parse\<close> returns for its text. An entry in a data block has its key and, when the
  property was written, its value.
\<close>

type_synonym stored_entry = "string \<times> json option"

datatype payload =
    DataBlock "stored_entry list"
  | IndexBlock "index_entry list"
  | FooterBlock footer

type_synonym chunk = "nat \<times> payload"

text \<open>The data directory: \<^verbatim>\<open>wal.log\<close> when it exists, and the other files by name.\<close>

record disk =
  wal_log :: "wal_line list option"
  tables :: "string \<rightharpoonup> chunk list"

text \<open>
  \<^verbatim>\<open>fs.readSync(fd, buffer, 0, size, offset)\<close> followed by \<^verbatim>\<open>JSON.parse\<close>: the read gives
  a buffer of the file back when it starts where that buffer starts and has its length;
  any other stretch of bytes is not the JSON that was written (\<open>None\<close>).
\<close>

fun read_at :: "chunk list \<Rightarrow> nat \<Rightarrow> nat \<Rightarrow> payload option" where
  "read_at [] off sz = None"
| "read_at ((len, d) # cs) off sz =
     (if off = 0 then (if sz = len then Some d else None)
      else if len \<le> off then read_at cs (off - len) sz
      else None)"

subsection \<open>SSTableWriter\<close>

definition join_commas :: "string list \<Rightarrow> string" where
  "join_commas ts = concat (case ts of [] \<Rightarrow> [] | t # r \<Rightarrow> t # map (\<lambda>u. '','' @ u) r)"

text \<open>\<^verbatim>\<open>JSON.stringify({ key, value })\<close>.\<close>

definition entry_text :: "string \<times> jsval \<Rightarrow> string" where
  "entry_text e =
     ''{'' @ json_string ''key'' @ '':'' @ json_string (fst e) @
     (case JSON_stringify (snd e) of
        None \<Rightarrow> []
      | Some t \<Rightarrow> '','' @ json_string ''value'' @ '':'' @ t) @ ''}''"

definition block_text :: "(string \<times> jsval) list \<Rightarrow> string" where
  "block_text es = ''['' @ join_commas (map entry_text es) @ '']''"

definition index_entry_text :: "index_entry \<Rightarrow> string" where
  "index_entry_text b =
     ''{'' @ json_string ''startKey'' @ '':'' @ json_string (startKey b) @
     '','' @ json_string ''endKey'' @ '':'' @ json_string (endKey b) @
     '','' @ json_string ''offset'' @ '':'' @ decimal (offset b) @
     '','' @ json_string ''size'' @ '':'' @ decimal (size' b) @ ''}''"

definition index_text :: "index_entry list \<Rightarrow> string" where
  "index_text bs = ''['' @ join_commas (map index_entry_text bs) @ '']''"

definition footer_text :: "footer \<Rightarrow> string" where
  "footer_text f =
     ''{'' @ json_string ''indexOffset'' @ '':'' @ decimal (indexOffset f) @
     '','' @ json_string ''indexSize'' @ '':'' @ decimal (indexSize f) @
     '','' @ json_string ''blockCount'' @ '':'' @ decimal (blockCount f) @
     '','' @ json_string ''entryCount'' @ '':'' @ decimal (entryCount f) @
     '','' @ json_string ''minKey'' @ '':'' @ json_string (minKey f) @
     '','' @ json_string ''maxKey'' @ '':'' @ json_string (maxKey f) @
     '','' @ json_string ''magic'' @ '':'' @ json_string (magic f) @ ''}''"

text \<open>\<^verbatim>\<open>_estimateEntrySize\<close>: the length of the text in code units.\<close>

definition estimateEntrySize :: "string \<times> jsval \<Rightarrow> nat" where
  "estimateEntrySize e = length (entry_text e)"

text \<open>A block under construction: \<^verbatim>\<open>{ startKey, endKey, data, offset }\<close>.\<close>

record data_block =
  blockStartKey :: string
  blockEndKey :: string
  blockData :: chunk
  blockOffset :: nat

text \<open>\<^verbatim>\<open>_finalizeBlock\<close> is only called with at least one entry.\<close>

definition finalizeBlock :: "(string \<times> jsval) list \<Rightarrow> data_block" where
  "finalizeBlock es =
     \<lparr>blockStartKey = fst (hd es),
      blockEndKey = fst (last es),
      blockData = (utf8_length (block_text es), DataBlock (map (\<lambda>e. (fst e, to_json (snd e))) es)),
      blockOffset = 0\<rparr>"

text \<open>The loop of \<^verbatim>\<open>_buildDataBlocks\<close> with its three variables, and the final block.\<close>

fun buildDataBlocks_loop :: "nat \<Rightarrow> (string \<times> jsval) list \<Rightarrow> data_block list
    \<Rightarrow> (string \<times> jsval) list \<Rightarrow> nat \<Rightarrow> data_block list" where
  "buildDataBlocks_loop blockSize [] blocks currentBlockEntries currentBlockSize =
     (if currentBlockEntries \<noteq> [] then blocks @ [finalizeBlock currentBlockEntries]
      else blocks)"
| "buildDataBlocks_loop blockSize (e # es) blocks currentBlockEntries currentBlockSize =
     (let entrySize = estimateEntrySize e in
      if currentBlockSize + entrySize > blockSize \<and> currentBlockEntries \<noteq> []
      then buildDataBlocks_loop blockSize es
             (blocks @ [finalizeBlock currentBlockEntries]) [e] entrySize
      else buildDataBlocks_loop blockSize es
             blocks (currentBlockEntries @ [e]) (currentBlockSize + entrySize))"

definition buildDataBlocks :: "nat \<Rightarrow> (string \<times> jsval) list \<Rightarrow> data_block list" where
  "buildDataBlocks blockSize es = buildDataBlocks_loop blockSize es [] [] 0"

text \<open>\<^verbatim>\<open>block.offset = currentOffset; currentOffset += block.data.length\<close>.\<close>

fun assign_offsets :: "nat \<Rightarrow> data_block list \<Rightarrow> data_block list \<times> nat" where
  "assign_offsets currentOffset [] = ([], currentOffset)"
| "assign_offsets currentOffset (b # bs) =
     (let r = assign_offsets (currentOffset + fst (blockData b)) bs
      in (b\<lparr>blockOffset := currentOffset\<rparr> # fst r, snd r))"

definition index_of_block :: "data_block \<Rightarrow> index_entry" where
  "index_of_block b =
     \<lparr>startKey = blockStartKey b, endKey = blockEndKey b,
      offset = blockOffset b, size' = fst (blockData b)\<rparr>"

text \<open>The writer replaces its tombstone symbol by the string it is serialised as.\<close>

definition writer_value :: "jsval \<Rightarrow> jsval" where
  "writer_value v = (if v = Sym (SymbolFor ''TOMBSTONE'') then Val (Str ''__TOMBSTONE__'') else v)"

text \<open>
  \<^verbatim>\<open>SSTableWriter.write\<close> for a writer made with \<^verbatim>\<open>new SSTableWriter(filePath, blockSize)\<close>.
  It returns the disk as it leaves it together with the footer or the error thrown.
\<close>

definition SSTableWriter_write :: "disk \<Rightarrow> string \<Rightarrow> nat \<Rightarrow> (string \<times> jsval) list
    \<Rightarrow> disk \<times> (error + footer)" where
  "SSTableWriter_write d filePath blockSize entries =
     (let allEntries = map (\<lambda>e. (fst e, writer_value (snd e))) entries in
      if length allEntries = 0 then (d, Inl EmptySSTable)
      else
        let (dataBlocks, indexOffset) = assign_offsets 0 (buildDataBlocks blockSize allEntries);
            indexEntries = map index_of_block dataBlocks;
            indexData = (utf8_length (index_text indexEntries), IndexBlock indexEntries);
            ftr = \<lparr>indexOffset = indexOffset,
                   indexSize = fst indexData,
                   blockCount = length dataBlocks,
                   entryCount = length allEntries,
                   minKey = fst (hd allEntries),
                   maxKey = fst (last allEntries),
                   magic = ''SSTABLE_V1''\<rparr>;
            footerData = (utf8_length (footer_text ftr), FooterBlock ftr);
            file = map blockData dataBlocks @ [indexData, footerData]
        in (d\<lparr>tables := (tables d)(filePath \<mapsto> file)\<rparr>, Inr ftr))"

subsection \<open>SSTableReader\<close>

record SSTableReader =
  filePath :: string
  footer :: footer
  index :: "index_entry list"

text \<open>The constructor (\<^verbatim>\<open>_loadMetadata\<close>): footer from the end, then the index it points to.\<close>

definition SSTableReader_new :: "disk \<Rightarrow> string \<Rightarrow> error + SSTableReader" where
  "SSTableReader_new d path =
     (case tables d path of
        None \<Rightarrow> Inl ENOENT
      | Some file \<Rightarrow>
          (case rev file of
             (n, FooterBlock f) # rest \<Rightarrow>
               (case read_at file (indexOffset f) (indexSize f) of
                  Some (IndexBlock idx) \<Rightarrow> Inr \<lparr>filePath = path, footer = f, index = idx\<rparr>
                | _ \<Rightarrow> Inl SyntaxError)
           | _ \<Rightarrow> Inl SyntaxError))"

definition loadBlock :: "disk \<Rightarrow> SSTableReader \<Rightarrow> index_entry \<Rightarrow> error + stored_entry list" where
  "loadBlock d r blockInfo =
     (case tables d (filePath r) of
        None \<Rightarrow> Inl ENOENT
      | Some file \<Rightarrow>
          (case read_at file (offset blockInfo) (size' blockInfo) of
             Some (DataBlock es) \<Rightarrow> Inr es
           | _ \<Rightarrow> Inl SyntaxError))"

text \<open>
  \<^verbatim>\<open>_findBlockIndex\<close>: \<open>left\<close>, \<open>right\<close> and \<open>result\<close> are the variables of the loop;
  \<open>right\<close> and \<open>result\<close> can be \<open>-1\<close>. The loop keeps \<open>0 \<le> left\<close> and
  \<open>right < length idx\<close>, so \<open>mid\<close> is an index of the array.
\<close>

function findBlockIndex_loop :: "index_entry list \<Rightarrow> string \<Rightarrow> int \<Rightarrow> int \<Rightarrow> int \<Rightarrow> int" where
  "findBlockIndex_loop idx key left right result =
     (if left \<le> right then
        (let mid = (left + right) div 2; block = idx ! nat mid in
         if key \<ge> startKey block \<and> key \<le> endKey block then mid
         else if key < startKey block then findBlockIndex_loop idx key left (mid - 1) result
         else findBlockIndex_loop idx key (mid + 1) right mid)
      else result)"
  by pat_completeness auto
termination
  by (relation "measure (\<lambda>(idx, key, left, right, result). nat (right - left + 1))") auto

declare findBlockIndex_loop.simps [simp del]

definition findBlockIndex :: "index_entry list \<Rightarrow> string \<Rightarrow> int" where
  "findBlockIndex idx key = findBlockIndex_loop idx key 0 (int (length idx) - 1) (- 1)"

function binarySearchBlock_loop :: "stored_entry list \<Rightarrow> string \<Rightarrow> int \<Rightarrow> int
    \<Rightarrow> stored_entry option" where
  "binarySearchBlock_loop entries key left right =
     (if left \<le> right then
        (let mid = (left + right) div 2; entry = entries ! nat mid in
         if fst entry = key then Some entry
         else if fst entry < key then binarySearchBlock_loop entries key (mid + 1) right
         else binarySearchBlock_loop entries key left (mid - 1))
      else None)"
  by pat_completeness auto
termination
  by (relation "measure (\<lambda>(entries, key, left, right). nat (right - left + 1))") auto

declare binarySearchBlock_loop.simps [simp del]

definition binarySearchBlock :: "stored_entry list \<Rightarrow> string \<Rightarrow> stored_entry option" where
  "binarySearchBlock entries key = binarySearchBlock_loop entries key 0 (int (length entries) - 1)"

text \<open>What the reader hands out for a stored value: the marker string becomes the symbol.\<close>

definition reader_value :: "json option \<Rightarrow> jsval" where
  "reader_value v = (if v = Some (Str ''__TOMBSTONE__'') then TOMBSTONE else of_json v)"

definition SSTableReader_get :: "disk \<Rightarrow> SSTableReader \<Rightarrow> string \<Rightarrow> error + jsval" where
  "SSTableReader_get d r key =
     (if key < minKey (footer r) \<or> key > maxKey (footer r) then Inr Undefined
      else
        let blockIndex = findBlockIndex (index r) key in
        if blockIndex = - 1 then Inr Undefined
        else
          case loadBlock d r (index r ! nat blockIndex) of
            Inl e \<Rightarrow> Inl e
          | Inr entries \<Rightarrow>
              (case binarySearchBlock entries key of
                 None \<Rightarrow> Inr Undefined
               | Some entry \<Rightarrow> Inr (reader_value (snd entry))))"

text \<open>The \<^verbatim>\<open>while\<close> loop of \<^verbatim>\<open>range\<close> over the blocks from \<open>blockIdx\<close> on.\<close>

fun range_loop :: "disk \<Rightarrow> SSTableReader \<Rightarrow> string \<Rightarrow> string \<Rightarrow> index_entry list
    \<Rightarrow> (string \<times> jsval) list \<Rightarrow> error + (string \<times> jsval) list" where
  "range_loop d r startK endK [] results = Inr results"
| "range_loop d r startK endK (blockInfo # bs) results =
     (if startKey blockInfo > endK then Inr results
      else
        case loadBlock d r blockInfo of
          Inl e \<Rightarrow> Inl e
        | Inr entries \<Rightarrow>
            range_loop d r startK endK bs
              (results @ map (\<lambda>e. (fst e, reader_value (snd e)))
                           (filter (\<lambda>e. fst e \<ge> startK \<and> fst e \<le> endK) entries)))"

definition SSTableReader_range :: "disk \<Rightarrow> SSTableReader \<Rightarrow> string \<Rightarrow> string
    \<Rightarrow> error + (string \<times> jsval) list" where
  "SSTableReader_range d r startK endK =
     (let found = findBlockIndex (index r) startK;
          blockIdx = (if found = - 1 then 0 else found)
      in range_loop d r startK endK (drop (nat blockIdx) (index r)) [])"

text \<open>The iterator, run to its end: every block in index order, every entry in order.\<close>

fun iterate_blocks :: "disk \<Rightarrow> SSTableReader \<Rightarrow> index_entry list
    \<Rightarrow> error + (string \<times> jsval) list" where
  "iterate_blocks d r [] = Inr []"
| "iterate_blocks d r (blockInfo # bs) =
     (case loadBlock d r blockInfo of
        Inl e \<Rightarrow> Inl e
      | Inr entries \<Rightarrow>
          (case iterate_blocks d r bs of
             Inl e \<Rightarrow> Inl e
           | Inr rest \<Rightarrow> Inr (map (\<lambda>e. (fst e, reader_value (snd e))) entries @ rest)))"

definition SSTableReader_iterator :: "disk \<Rightarrow> SSTableReader \<Rightarrow> error + (string \<times> jsval) list" where
  "SSTableReader_iterator d r = iterate_blocks d r (index r)"

section \<open>Step 5: the LSM tree (lsm-tree.js)\<close>

subsection \<open>Numbers\<close>

text \<open>
  The numbers of the engine are JavaScript numbers, that is IEEE-754 doubles. Those that can
  be large are the counter for file names and the two numbers read from a file name. They are
  non-negative integers, and a natural number stands here for the double of that value.
  Every integer up to \<open>2\<^sup>5\<^sup>3 = 9007199254740992\<close> is a double, and arithmetic that stays in
  this range is exact. Above it only the integers with 53 significant bits are doubles, and
  the result of an operation is the double nearest to the exact result, the one with the
  even significand when two are equally near: this is \<open>double\<close>. So
  \<open>2\<^sup>5\<^sup>3 + 1\<close> is \<open>2\<^sup>5\<^sup>3\<close> again. (From \<open>2\<^sup>1\<^sup>0\<^sup>2\<^sup>4\<close> on the result would be \<^verbatim>\<open>Infinity\<close>; it
  takes a string of 309 digits to get there, more than a file name can hold, and this is
  left out.)
\<close>

fun bit_length :: "nat \<Rightarrow> nat" where
  "bit_length n = (if n = 0 then 0 else Suc (bit_length (n div 2)))"

declare bit_length.simps [simp del]

definition double :: "nat \<Rightarrow> nat" where
  "double n =
     (if int n \<le> 9007199254740992 then n
      else
        (let e = bit_length n - 53; q = n div 2 ^ e; r = n mod 2 ^ e; half = 2 ^ (e - 1)
         in (if r < half \<or> (r = half \<and> even q) then q else q + 1) * 2 ^ e))"

text \<open>\<^verbatim>\<open>n + 1\<close> and \<^verbatim>\<open>n++\<close> on a number.\<close>

definition plus_one :: "nat \<Rightarrow> nat" where
  "plus_one n = double (n + 1)"

subsection \<open>The engine\<close>

text \<open>
  Two things are left to the host. One is the collation behind \<^verbatim>\<open>localeCompare\<close>. The
  other is the text that a template literal prints for a number above \<open>2\<^sup>5\<^sup>3\<close> (the
  shortest digits that read back as the same double, in exponent form from \<open>10\<^sup>2\<^sup>1\<close> on);
  up to \<open>2\<^sup>5\<^sup>3\<close> a number is printed with all its decimal digits.
\<close>

record host =
  localeCompare :: "string \<Rightarrow> string \<Rightarrow> int"
  numberToString :: "nat \<Rightarrow> string"

definition number_text :: "host \<Rightarrow> nat \<Rightarrow> string" where
  "number_text h n = (if int n \<le> 9007199254740992 then decimal n else numberToString h n)"

text \<open>The engine object together with the data directory it works on (\<open>fs\<close>) and the host.\<close>

record LSMTree =
  memtableMaxSize :: nat
  level0MaxFiles :: nat
  maxLevels :: nat
  memtable :: MemTable
  levels :: "SSTableReader list list"
  sstableCounter :: nat
  fs :: disk
  host :: host

record options =
  opt_memtableMaxSize :: "nat option"
  opt_level0MaxFiles :: "nat option"
  opt_maxLevels :: "nat option"

text \<open>\<^verbatim>\<open>options.x || dflt\<close>: a missing option and the number 0 both give the default.\<close>

fun or_default :: "nat option \<Rightarrow> nat \<Rightarrow> nat" where
  "or_default None dflt = dflt"
| "or_default (Some n) dflt = (if n = 0 then dflt else n)"

text \<open>\<^verbatim>\<open>this.levels[i]\<close> is \<^verbatim>\<open>undefined\<close> outside the array; using it throws.\<close>

definition level_at :: "SSTableReader list list \<Rightarrow> nat \<Rightarrow> error + SSTableReader list" where
  "level_at lvls i = (if i < length lvls then Inr (lvls ! i) else Inl TypeError)"

definition sst_name :: "host \<Rightarrow> nat \<Rightarrow> nat \<Rightarrow> string" where
  "sst_name h level counter =
     ''level'' @ number_text h level @ ''_'' @ number_text h counter @ ''.sst''"

definition unlink :: "disk \<Rightarrow> string \<Rightarrow> error + disk" where
  "unlink d path =
     (if tables d path = None then Inl ENOENT
      else Inr (d\<lparr>tables := (tables d)(path := None)\<rparr>))"

fun unlink_all :: "disk \<Rightarrow> SSTableReader list \<Rightarrow> error + disk" where
  "unlink_all d [] = Inr d"
| "unlink_all d (s # ss) =
     (case unlink d (filePath s) of Inl e \<Rightarrow> Inl e | Inr d' \<Rightarrow> unlink_all d' ss)"

text \<open>All entries of the tables of a level, table after table.\<close>

fun iterate_all :: "disk \<Rightarrow> SSTableReader list \<Rightarrow> error + (string \<times> jsval) list" where
  "iterate_all d [] = Inr []"
| "iterate_all d (s # ss) =
     (case SSTableReader_iterator d s of
        Inl e \<Rightarrow> Inl e
      | Inr es \<Rightarrow> (case iterate_all d ss of Inl e \<Rightarrow> Inl e | Inr rest \<Rightarrow> Inr (es @ rest)))"

definition LSMTree_compactLevel :: "LSMTree \<Rightarrow> nat \<Rightarrow> error + LSMTree" where
  "LSMTree_compactLevel t level =
     (if int level \<ge> int (maxLevels t) - 1 then Inr t
      else
        case level_at (levels t) level of Inl e \<Rightarrow> Inl e | Inr oldSstables \<Rightarrow>
       (case iterate_all (fs t) oldSstables of Inl e \<Rightarrow> Inl e | Inr es1 \<Rightarrow>
       (case level_at (levels t) (level + 1) of Inl e \<Rightarrow> Inl e | Inr nextLevelOldSstables \<Rightarrow>
       (case iterate_all (fs t) nextLevelOldSstables of Inl e \<Rightarrow> Inl e | Inr es2 \<Rightarrow>
          (let allEntries = foldl (\<lambda>m e. Map_set (fst e) (snd e) m) [] es1;
               allEntries = foldl (\<lambda>m e. if \<not> Map_has (fst e) m
                                          then Map_set (fst e) (snd e) m else m) allEntries es2;
               entries = sort_by_key (localeCompare (host t))
                           (filter (\<lambda>e. \<not> (int level + 1 = int (maxLevels t) - 1
                                             \<and> snd e = TOMBSTONE)) allEntries);
               sstablePath = sst_name (host t) (level + 1) (sstableCounter t);
               t1 = t\<lparr>sstableCounter := plus_one (sstableCounter t)\<rparr>
           in
             case (if length entries > 0
                   then (case SSTableWriter_write (fs t1) sstablePath 4096 entries of
                           (d, Inl e) \<Rightarrow> Inl e
                         | (d, Inr ftr) \<Rightarrow>
                             (case SSTableReader_new d sstablePath of
                                Inl e \<Rightarrow> Inl e
                              | Inr reader \<Rightarrow>
                                  Inr (t1\<lparr>fs := d, levels := (levels t1)[level + 1 := [reader]]\<rparr>)))
                   else Inr (t1\<lparr>levels := (levels t1)[level + 1 := []]\<rparr>)) of
               Inl e \<Rightarrow> Inl e
             | Inr t2 \<Rightarrow>
                 (let t3 = t2\<lparr>levels := (levels t2)[level := []]\<rparr> in
                  case unlink_all (fs t3) oldSstables of Inl e \<Rightarrow> Inl e | Inr d1 \<Rightarrow>
                 (case unlink_all d1 nextLevelOldSstables of Inl e \<Rightarrow> Inl e | Inr d2 \<Rightarrow>
                    Inr (t3\<lparr>fs := d2\<rparr>))))))))"

definition LSMTree_flushMemtable :: "LSMTree \<Rightarrow> error + LSMTree" where
  "LSMTree_flushMemtable t =
     (let sstablePath = sst_name (host t) 0 (sstableCounter t);
          t1 = t\<lparr>sstableCounter := plus_one (sstableCounter t)\<rparr>
      in
        case SSTableWriter_write (fs t1) sstablePath 4096 (MemTable_entries (memtable t1)) of
          (d, Inl e) \<Rightarrow> Inl e
        | (d, Inr ftr) \<Rightarrow>
            (case SSTableReader_new d sstablePath of Inl e \<Rightarrow> Inl e | Inr reader \<Rightarrow>
            (case level_at (levels t1) 0 of Inl e \<Rightarrow> Inl e | Inr level0 \<Rightarrow>
               (if wal_log d = None then Inl ENOENT
                else
                  let t2 = t1\<lparr>levels := (levels t1)[0 := level0 @ [reader]],
                              memtable := MemTable_new (memtableMaxSize t1),
                              fs := d\<lparr>wal_log := Some []\<rparr>\<rparr>
                  in if length (level0 @ [reader]) \<ge> level0MaxFiles t2
                     then LSMTree_compactLevel t2 0
                     else Inr t2))))"

text \<open>The log is open for appending since the constructor; a write (re)creates the file.\<close>

definition wal_append :: "(wal_line list \<Rightarrow> wal_line list) \<Rightarrow> disk \<Rightarrow> disk" where
  "wal_append f d = d\<lparr>wal_log := Some (f (case wal_log d of None \<Rightarrow> [] | Some ls \<Rightarrow> ls))\<rparr>"

definition LSMTree_set :: "LSMTree \<Rightarrow> string \<Rightarrow> jsval \<Rightarrow> error + LSMTree" where
  "LSMTree_set t key v =
     (let t1 = t\<lparr>fs := wal_append (logSet key v) (fs t)\<rparr> in
      case MemTable_set key v (memtable t1) of
        Inl e \<Rightarrow> Inl e
      | Inr (m, shouldFlush) \<Rightarrow>
          (if shouldFlush then LSMTree_flushMemtable (t1\<lparr>memtable := m\<rparr>)
           else Inr (t1\<lparr>memtable := m\<rparr>)))"

definition LSMTree_delete :: "LSMTree \<Rightarrow> string \<Rightarrow> error + LSMTree" where
  "LSMTree_delete t key =
     (let t1 = t\<lparr>fs := wal_append (logDelete key) (fs t)\<rparr> in
      case MemTable_delete key (memtable t1) of
        Inl e \<Rightarrow> Inl e
      | Inr (m, shouldFlush) \<Rightarrow>
          (if shouldFlush then LSMTree_flushMemtable (t1\<lparr>memtable := m\<rparr>)
           else Inr (t1\<lparr>memtable := m\<rparr>)))"

text \<open>
  The two inner loops of \<^verbatim>\<open>get\<close>: over Level 0 (given from the last table to the first)
  and over the tables of a deeper level, which are probed only inside their key range.
  \<open>Some\<close> is the answer that ends the search.
\<close>

fun search_level0 :: "disk \<Rightarrow> SSTableReader list \<Rightarrow> string \<Rightarrow> error + jsval option" where
  "search_level0 d [] key = Inr None"
| "search_level0 d (s # ss) key =
     (case SSTableReader_get d s key of
        Inl e \<Rightarrow> Inl e
      | Inr v \<Rightarrow>
          (if v \<noteq> Undefined then Inr (Some (if v = TOMBSTONE then Undefined else v))
           else search_level0 d ss key))"

fun search_level :: "disk \<Rightarrow> SSTableReader list \<Rightarrow> string \<Rightarrow> error + jsval option" where
  "search_level d [] key = Inr None"
| "search_level d (s # ss) key =
     (if key \<ge> minKey (footer s) \<and> key \<le> maxKey (footer s) then
        (case SSTableReader_get d s key of
           Inl e \<Rightarrow> Inl e
         | Inr v \<Rightarrow>
             (if v \<noteq> Undefined then Inr (Some (if v = TOMBSTONE then Undefined else v))
              else search_level d ss key))
      else search_level d ss key)"

fun search_levels :: "disk \<Rightarrow> SSTableReader list list \<Rightarrow> string \<Rightarrow> nat list \<Rightarrow> error + jsval" where
  "search_levels d lvls key [] = Inr Undefined"
| "search_levels d lvls key (level # rest) =
     (case level_at lvls level of Inl e \<Rightarrow> Inl e | Inr ss \<Rightarrow>
       (case search_level d ss key of
          Inl e \<Rightarrow> Inl e
        | Inr (Some v) \<Rightarrow> Inr v
        | Inr None \<Rightarrow> search_levels d lvls key rest))"

definition LSMTree_get :: "LSMTree \<Rightarrow> string \<Rightarrow> error + jsval" where
  "LSMTree_get t key =
     (let memValue = MemTable_get key (memtable t) in
      if memValue \<noteq> Undefined then
        (if memValue = MemTable_TOMBSTONE then Inr Undefined else Inr memValue)
      else
        case level_at (levels t) 0 of Inl e \<Rightarrow> Inl e | Inr level0 \<Rightarrow>
         (case search_level0 (fs t) (rev level0) key of
            Inl e \<Rightarrow> Inl e
          | Inr (Some v) \<Rightarrow> Inr v
          | Inr None \<Rightarrow> search_levels (fs t) (levels t) key [1..<maxLevels t]))"

text \<open>\<^verbatim>\<open>range\<close>: the \<open>results\<close> map is filled from the deepest level up, then from the
  MemTable; what is left after the tombstone filter is sorted.\<close>

fun range_tables :: "disk \<Rightarrow> SSTableReader list \<Rightarrow> string \<Rightarrow> string \<Rightarrow> jsval jsmap
    \<Rightarrow> error + jsval jsmap" where
  "range_tables d [] startK endK results = Inr results"
| "range_tables d (s # ss) startK endK results =
     (case SSTableReader_range d s startK endK of
        Inl e \<Rightarrow> Inl e
      | Inr es \<Rightarrow>
          range_tables d ss startK endK (foldl (\<lambda>m e. Map_set (fst e) (snd e) m) results es))"

fun range_levels :: "disk \<Rightarrow> SSTableReader list list \<Rightarrow> string \<Rightarrow> string \<Rightarrow> nat list
    \<Rightarrow> jsval jsmap \<Rightarrow> error + jsval jsmap" where
  "range_levels d lvls startK endK [] results = Inr results"
| "range_levels d lvls startK endK (level # rest) results =
     (case level_at lvls level of Inl e \<Rightarrow> Inl e | Inr ss \<Rightarrow>
       (case range_tables d ss startK endK results of
          Inl e \<Rightarrow> Inl e
        | Inr results' \<Rightarrow> range_levels d lvls startK endK rest results'))"

definition LSMTree_range :: "LSMTree \<Rightarrow> string \<Rightarrow> string \<Rightarrow> error + (string \<times> jsval) list" where
  "LSMTree_range t startK endK =
     (case range_levels (fs t) (levels t) startK endK (rev [0..<maxLevels t]) [] of
        Inl e \<Rightarrow> Inl e
      | Inr results \<Rightarrow>
          (let results = foldl (\<lambda>m e. Map_set (fst e) (snd e) m) results
                           (MemTable_range startK endK (memtable t));
               output = filter (\<lambda>e. snd e \<noteq> TOMBSTONE \<and> snd e \<noteq> MemTable_TOMBSTONE) results
           in Inr (sort_by_key (localeCompare (host t)) output)))"

subsection \<open>Opening a directory\<close>

definition is_digit :: "char \<Rightarrow> bool" where
  "is_digit c = (CHR ''0'' \<le> c \<and> c \<le> CHR ''9'')"

text \<open>
  \<^verbatim>\<open>parseInt\<close> of a string of decimal digits: the double nearest to the integer that the
  digits denote. (For a string of more than 20 digits the language lets an implementation
  read the digits after the 20th as 0; such a number is far above \<open>2\<^sup>5\<^sup>3\<close> either way.)
\<close>

definition digits_value :: "string \<Rightarrow> nat" where
  "digits_value ds = foldl (\<lambda>n c. 10 * n + (of_char c - 48)) 0 ds"

definition parseInt :: "string \<Rightarrow> nat" where
  "parseInt ds = double (digits_value ds)"

text \<open>
  \<^verbatim>\<open>file.match(/level(\d+)_(\d+)\.sst/)\<close>: the pattern is not anchored, so the first
  position of the name where it matches is taken. At one position the match is
  determined: \<^verbatim>\<open>\d+\<close> takes all the digits there are, and giving one back cannot help,
  because the character wanted next (\<^verbatim>\<open>_\<close> or \<^verbatim>\<open>.\<close>) is not a digit.
\<close>

definition match_here :: "string \<Rightarrow> (string \<times> string) option" where
  "match_here s =
     (if take 5 s = ''level'' then
        (let r = drop 5 s; d1 = takeWhile is_digit r; r1 = dropWhile is_digit r in
         if d1 \<noteq> [] \<and> take 1 r1 = ''_'' then
           (let r2 = drop 1 r1; d2 = takeWhile is_digit r2; r3 = dropWhile is_digit r2 in
            if d2 \<noteq> [] \<and> take 4 r3 = ''.sst'' then Some (d1, d2) else None)
         else None)
      else None)"

fun regex_match :: "string \<Rightarrow> (string \<times> string) option" where
  "regex_match [] = match_here []"
| "regex_match (c # cs) =
     (case match_here (c # cs) of Some m \<Rightarrow> Some m | None \<Rightarrow> regex_match cs)"

definition endsWith :: "string \<Rightarrow> string \<Rightarrow> bool" where
  "endsWith s suffix = (length suffix \<le> length s \<and> drop (length s - length suffix) s = suffix)"

text \<open>
  The first loop of \<^verbatim>\<open>_recover\<close>, over the names that \<^verbatim>\<open>fs.readdirSync\<close> returned, in the
  order in which it returned them.
\<close>

fun recover_files :: "LSMTree \<Rightarrow> string list \<Rightarrow> error + LSMTree" where
  "recover_files t [] = Inr t"
| "recover_files t (file # files) =
     (if endsWith file ''.sst'' then
        (case regex_match file of
           Some m \<Rightarrow>
             (let level = parseInt (fst m); counter = parseInt (snd m) in
              case SSTableReader_new (fs t) file of Inl e \<Rightarrow> Inl e | Inr reader \<Rightarrow>
             (case level_at (levels t) level of Inl e \<Rightarrow> Inl e | Inr tabs \<Rightarrow>
                recover_files
                  (t\<lparr>levels := (levels t)[level := tabs @ [reader]],
                     sstableCounter := (if counter \<ge> sstableCounter t then plus_one counter
                                        else sstableCounter t)\<rparr>) files))
         | None \<Rightarrow> recover_files t files)
      else recover_files t files)"

text \<open>The second loop of \<^verbatim>\<open>_recover\<close>, over the map returned by the log's \<^verbatim>\<open>recover\<close>.\<close>

fun is_symbol :: "jsval \<Rightarrow> bool" where
  "is_symbol (Sym s) = True"
| "is_symbol v = False"

fun replay_wal :: "MemTable \<Rightarrow> jsval jsmap \<Rightarrow> error + MemTable" where
  "replay_wal m [] = Inr m"
| "replay_wal m ((key, v) # walData) =
     (case (if is_symbol v then MemTable_delete key m else MemTable_set key v m) of
        Inl e \<Rightarrow> Inl e
      | Inr (m', shouldFlush) \<Rightarrow> replay_wal m' walData)"

definition LSMTree_recover :: "LSMTree \<Rightarrow> string list \<Rightarrow> error + LSMTree" where
  "LSMTree_recover t listing =
     (case recover_files t listing of Inl e \<Rightarrow> Inl e | Inr t1 \<Rightarrow>
       (case replay_wal (memtable t1) (fst (WriteAheadLog_recover (wal_log (fs t1)))) of
          Inl e \<Rightarrow> Inl e
        | Inr m \<Rightarrow> Inr (t1\<lparr>memtable := m\<rparr>)))"

text \<open>
  \<^verbatim>\<open>new LSMTree(dataDir, options)\<close> on a directory with the content \<open>d\<close>, of which
  \<^verbatim>\<open>readdirSync\<close> lists the names as \<open>listing\<close>, on the host \<open>h\<close>. Opening the log for
  appending creates an empty \<^verbatim>\<open>wal.log\<close> when there is none. The options are integers
  below \<open>2\<^sup>5\<^sup>3\<close>.
\<close>

definition LSMTree_new :: "disk \<Rightarrow> string list \<Rightarrow> host \<Rightarrow> options \<Rightarrow> error + LSMTree" where
  "LSMTree_new d listing h opts =
     (let mms = or_default (opt_memtableMaxSize opts) (4 * 1024 * 1024);
          ml = or_default (opt_maxLevels opts) 7
      in LSMTree_recover
           \<lparr>memtableMaxSize = mms,
            level0MaxFiles = or_default (opt_level0MaxFiles opts) 4,
            maxLevels = ml,
            memtable = MemTable_new mms,
            levels = replicate ml [],
            sstableCounter = 0,
            fs = wal_append (\<lambda>ls. ls) d,
            host = h\<rparr> listing)"

section \<open>Auxiliary definitions for the proofs\<close>

text \<open>The groups of entries that the block builder closes, as a function of their own.\<close>

fun split_loop :: "nat \<Rightarrow> (string \<times> jsval) list \<Rightarrow> (string \<times> jsval) list \<Rightarrow> nat
    \<Rightarrow> (string \<times> jsval) list list" where
  "split_loop blockSize [] cur sz = (if cur \<noteq> [] then [cur] else [])"
| "split_loop blockSize (e # es) cur sz =
     (if sz + estimateEntrySize e > blockSize \<and> cur \<noteq> []
      then cur # split_loop blockSize es [e] (estimateEntrySize e)
      else split_loop blockSize es (cur @ [e]) (sz + estimateEntrySize e))"

definition stored_of :: "(string \<times> jsval) list \<Rightarrow> stored_entry list" where
  "stored_of es = map (\<lambda>e. (fst e, to_json (snd e))) es"

definition handed_out :: "stored_entry list \<Rightarrow> (string \<times> jsval) list" where
  "handed_out es = map (\<lambda>e. (fst e, reader_value (snd e))) es"

definition written_entries :: "(string \<times> jsval) list \<Rightarrow> (string \<times> jsval) list" where
  "written_entries es = map (\<lambda>e. (fst e, writer_value (snd e))) es"

definition written_groups :: "nat \<Rightarrow> (string \<times> jsval) list \<Rightarrow> (string \<times> jsval) list list" where
  "written_groups bs es = split_loop bs (written_entries es) [] 0"

definition written_blocks :: "nat \<Rightarrow> (string \<times> jsval) list \<Rightarrow> data_block list" where
  "written_blocks bs es = fst (assign_offsets 0 (buildDataBlocks bs (written_entries es)))"

definition written_index :: "nat \<Rightarrow> (string \<times> jsval) list \<Rightarrow> index_entry list" where
  "written_index bs es = map index_of_block (written_blocks bs es)"

definition written_footer :: "nat \<Rightarrow> (string \<times> jsval) list \<Rightarrow> footer" where
  "written_footer bs es =
     \<lparr>indexOffset = snd (assign_offsets 0 (buildDataBlocks bs (written_entries es))),
      indexSize = utf8_length (index_text (written_index bs es)),
      blockCount = length (written_blocks bs es),
      entryCount = length es,
      minKey = fst (hd es),
      maxKey = fst (last es),
      magic = ''SSTABLE_V1''\<rparr>"

definition written_file :: "nat \<Rightarrow> (string \<times> jsval) list \<Rightarrow> chunk list" where
  "written_file bs es =
     map blockData (written_blocks bs es) @
     [(utf8_length (index_text (written_index bs es)), IndexBlock (written_index bs es)),
      (utf8_length (footer_text (written_footer bs es)), FooterBlock (written_footer bs es))]"

definition index_sorted :: "index_entry list \<Rightarrow> bool" where
  "index_sorted ies \<longleftrightarrow>
     (\<forall>j < length ies. startKey (ies ! j) \<le> endKey (ies ! j)) \<and>
     (\<forall>i j. i < j \<and> j < length ies \<longrightarrow> endKey (ies ! i) < startKey (ies ! j))"

definition last_block_le :: "index_entry list \<Rightarrow> string \<Rightarrow> int \<Rightarrow> bool" where
  "last_block_le ies k R \<longleftrightarrow>
     - 1 \<le> R \<and> R < int (length ies) \<and>
     (\<forall>j < length ies. int j \<le> R \<longrightarrow> startKey (ies ! j) \<le> k) \<and>
     (\<forall>j < length ies. R < int j \<longrightarrow> k < startKey (ies ! j))"

text \<open>The reader that the constructor builds on a file written from \<open>es\<close>.\<close>

definition table_reader :: "string \<Rightarrow> nat \<Rightarrow> (string \<times> jsval) list \<Rightarrow> SSTableReader" where
  "table_reader p bs es =
     \<lparr>filePath = p, footer = written_footer bs es, index = written_index bs es\<rparr>"


fun is_corrupt :: "wal_line \<Rightarrow> bool" where
  "is_corrupt (Corrupt line) = True"
| "is_corrupt l = False"

fun corrupt_texts :: "wal_line list \<Rightarrow> string list" where
  "corrupt_texts [] = []"
| "corrupt_texts (Corrupt line # ls) = line # corrupt_texts ls"
| "corrupt_texts (l # ls) = corrupt_texts ls"

text \<open>
  The reading of the specification for a log with an unparseable record: the stream is
  cut at the first such record, and only the prefix before it is replayed.
\<close>

definition spec_parseable_prefix :: "wal_line list \<Rightarrow> wal_line list" where
  "spec_parseable_prefix ls = takeWhile (\<lambda>l. \<not> is_corrupt l) ls"

text \<open>
  What a line of the log does to the recovered state, the state read as a finite map from
  keys to values: a SET record binds the key, a DELETE record removes it, and a blank line,
  a corrupt line or a record with another operation changes nothing.
\<close>

fun log_effect :: "(string \<rightharpoonup> jsval) \<Rightarrow> wal_line \<Rightarrow> (string \<rightharpoonup> jsval)" where
  "log_effect m (Record opn k v) =
     (if opn = ''SET'' then m(k \<mapsto> of_json v)
      else if opn = ''DELETE'' then m(k := None)
      else m)"
| "log_effect m (Corrupt line) = m"
| "log_effect m Blank = m"



text \<open>Names used in the examples: a collation by code units and a host with it (no example
  prints a number above \<open>2\<^sup>5\<^sup>3\<close>), an empty directory, and running one operation after
  another as long as none throws.\<close>

definition codeunit_compare :: "string \<Rightarrow> string \<Rightarrow> int" where
  "codeunit_compare a b = (if a < b then - 1 else if a = b then 0 else 1)"

definition example_host :: host where
  "example_host = \<lparr>localeCompare = codeunit_compare, numberToString = decimal\<rparr>"

definition empty_disk :: disk where
  "empty_disk = \<lparr>wal_log = None, tables = Map.empty\<rparr>"

fun then_do :: "error + 'a \<Rightarrow> ('a \<Rightarrow> error + 'b) \<Rightarrow> error + 'b" where
  "then_do (Inl e) f = Inl e"
| "then_do (Inr x) f = f x"

text \<open>The options, directories and engine states of the scenarios below; \<open>h\<close> is the
  host, and the scenarios hold whatever it is.\<close>

abbreviation opts_flush_each :: options where
  "opts_flush_each \<equiv> \<lparr>opt_memtableMaxSize = Some 1, opt_level0MaxFiles = None, opt_maxLevels = Some 2\<rparr>"

abbreviation opts_compact_second :: options where
  "opts_compact_second \<equiv> \<lparr>opt_memtableMaxSize = Some 1, opt_level0MaxFiles = Some 2, opt_maxLevels = Some 2\<rparr>"

abbreviation fresh_tree :: "host \<Rightarrow> nat \<Rightarrow> nat \<Rightarrow> LSMTree" where
  "fresh_tree h mms l0 \<equiv>
     \<lparr>memtableMaxSize = mms, level0MaxFiles = l0, maxLevels = 2, memtable = MemTable_new mms,
      levels = [[], []], sstableCounter = 0,
      fs = \<lparr>wal_log = Some [], tables = Map.empty\<rparr>, host = h\<rparr>"

abbreviation opts_flush_at_80 :: options where
  "opts_flush_at_80 \<equiv> \<lparr>opt_memtableMaxSize = Some 80, opt_level0MaxFiles = None, opt_maxLevels = Some 2\<rparr>"

abbreviation one_table_disk :: "wal_line list \<Rightarrow> disk" where
  "one_table_disk wal \<equiv>
     \<lparr>wal_log = Some wal,
      tables = [''level0_0.sst'' \<mapsto> written_file 4096 [(''k'', Val (Str ''vvvvvvvvvv''))]]\<rparr>"

abbreviation one_table_tree :: "host \<Rightarrow> MemTable \<Rightarrow> wal_line list \<Rightarrow> LSMTree" where
  "one_table_tree h m wal \<equiv>
     \<lparr>memtableMaxSize = 80, level0MaxFiles = 4, maxLevels = 2, memtable = m,
      levels = [[table_reader ''level0_0.sst'' 4096 [(''k'', Val (Str ''vvvvvvvvvv''))]], []],
      sstableCounter = 1, fs = one_table_disk wal, host = h\<rparr>"

abbreviation tombstone_memtable :: MemTable where
  "tombstone_memtable \<equiv>
     \<lparr>skipList = [(''k'', MemTable_TOMBSTONE)], maxSizeBytes = 80, currentSizeBytes = 74\<rparr>"

abbreviation opts_no_flush :: options where
  "opts_no_flush \<equiv> \<lparr>opt_memtableMaxSize = Some 1000, opt_level0MaxFiles = None, opt_maxLevels = Some 2\<rparr>"

abbreviation two_tables_disk :: "wal_line list option \<Rightarrow> disk" where
  "two_tables_disk wal \<equiv>
     \<lparr>wal_log = wal,
      tables = [''level0_9.sst'' \<mapsto> written_file 4096 [(''k'', Val (Str ''old''))],
                ''level0_10.sst'' \<mapsto> written_file 4096 [(''k'', Val (Str ''new''))]]\<rparr>"

abbreviation two_tables_tree :: "host \<Rightarrow> LSMTree" where
  "two_tables_tree h \<equiv>
     \<lparr>memtableMaxSize = 1000, level0MaxFiles = 4, maxLevels = 2, memtable = MemTable_new 1000,
      levels = [[table_reader ''level0_10.sst'' 4096 [(''k'', Val (Str ''new''))],
                 table_reader ''level0_9.sst'' 4096 [(''k'', Val (Str ''old''))]], []],
      sstableCounter = 11, fs = two_tables_disk (Some []), host = h\<rparr>"



abbreviation limit_disk :: "(string \<times> jsval) list \<Rightarrow> disk" where
  "limit_disk es \<equiv>
     \<lparr>wal_log = Some [], tables = [''level0_9007199254740992.sst'' \<mapsto> written_file 4096 es]\<rparr>"

abbreviation limit_tree :: "SSTableReader list \<Rightarrow> (string \<times> jsval) list \<Rightarrow> LSMTree" where
  "limit_tree level0 es \<equiv>
     \<lparr>memtableMaxSize = 80, level0MaxFiles = 4, maxLevels = 2, memtable = MemTable_new 80,
      levels = [level0, []], sstableCounter = 9007199254740992,
      fs = limit_disk es, host = example_host\<rparr>"

section \<open>Properties of the sorted-table layer\<close>

lemma buildDataBlocks_loop_split:
  "buildDataBlocks_loop bs es blocks cur sz = blocks @ map finalizeBlock (split_loop bs es cur sz)"
  by (induction es arbitrary: blocks cur sz) (simp_all add: Let_def)

lemma concat_split_loop: "concat (split_loop bs es cur sz) = cur @ es"
  by (induction es arbitrary: cur sz) simp_all

lemma split_loop_nonempty: "g \<in> set (split_loop bs es cur sz) \<Longrightarrow> g \<noteq> []"
  by (induction es arbitrary: cur sz) (auto split: if_splits)

lemma split_loop_not_Nil: "cur @ es \<noteq> [] \<Longrightarrow> split_loop bs es cur sz \<noteq> []"
  by (induction es arbitrary: cur sz) auto

lemma buildDataBlocks_split:
  "buildDataBlocks bs es = map finalizeBlock (split_loop bs es [] 0)"
  by (simp add: buildDataBlocks_def buildDataBlocks_loop_split)

lemma assign_offsets_data:
  "map blockData (fst (assign_offsets off bs)) = map blockData bs"
  by (induction bs arbitrary: off) (simp_all add: Let_def)

lemma assign_offsets_length [simp]: "length (fst (assign_offsets off bs)) = length bs"
  by (induction bs arbitrary: off) (simp_all add: Let_def)

lemma assign_offsets_total:
  "snd (assign_offsets off bs) = off + sum_list (map (\<lambda>b. fst (blockData b)) bs)"
  by (induction bs arbitrary: off) (simp_all add: Let_def)

lemma read_at_append:
  "\<forall>c \<in> set pre. 0 < fst c \<Longrightarrow>
   read_at (pre @ cs) (sum_list (map fst pre) + off) sz = read_at cs off sz"
  by (induction pre) auto

lemma utf8_length_pos: "s \<noteq> [] \<Longrightarrow> 0 < utf8_length s"
  by (cases s) (simp_all add: utf8_length_def)

lemma block_len_pos: "0 < fst (blockData (finalizeBlock g))"
  by (simp add: finalizeBlock_def block_text_def utf8_length_pos)

lemma write_eq:
  "es \<noteq> [] \<Longrightarrow>
   SSTableWriter_write d p bs es =
     (d\<lparr>tables := (tables d)(p \<mapsto> written_file bs es)\<rparr>, Inr (written_footer bs es))"
  by (simp add: SSTableWriter_write_def written_file_def written_footer_def written_index_def
      written_blocks_def written_entries_def Let_def case_prod_unfold hd_map last_map)

lemma write_empty: "SSTableWriter_write d p bs [] = (d, Inl EmptySSTable)"
  by (simp add: SSTableWriter_write_def)

lemma written_blocks_data:
  "map blockData (written_blocks bs es) = map (\<lambda>g. blockData (finalizeBlock g)) (written_groups bs es)"
  by (simp add: written_blocks_def written_groups_def assign_offsets_data buildDataBlocks_split)

lemma written_blocks_length: "length (written_blocks bs es) = length (written_groups bs es)"
  by (simp add: written_blocks_def written_groups_def buildDataBlocks_split)

lemma concat_written_groups: "concat (written_groups bs es) = written_entries es"
  by (simp add: written_groups_def concat_split_loop)

lemma written_groups_nonempty: "g \<in> set (written_groups bs es) \<Longrightarrow> g \<noteq> []"
  unfolding written_groups_def by (rule split_loop_nonempty)

lemma written_chunks_pos: "\<forall>c \<in> set (map blockData (written_blocks bs es)). 0 < fst c"
  by (auto simp: written_blocks_data block_len_pos)

lemma written_indexOffset:
  "indexOffset (written_footer bs es) = sum_list (map fst (map blockData (written_blocks bs es)))"
  by (simp add: written_footer_def assign_offsets_total written_blocks_def assign_offsets_data
      comp_def)

lemma reader_new_written:
  assumes "tables d p = Some (written_file bs es)"
  shows "SSTableReader_new d p =
           Inr \<lparr>filePath = p, footer = written_footer bs es, index = written_index bs es\<rparr>"
proof -
  let ?pre = "map blockData (written_blocks bs es)"
  let ?ix = "(utf8_length (index_text (written_index bs es)), IndexBlock (written_index bs es))"
  let ?ft = "(utf8_length (footer_text (written_footer bs es)), FooterBlock (written_footer bs es))"
  have fl: "written_file bs es = ?pre @ [?ix, ?ft]"
    by (simp add: written_file_def)
  have "read_at (?pre @ [?ix, ?ft]) (sum_list (map fst ?pre) + 0) (indexSize (written_footer bs es))
        = read_at [?ix, ?ft] 0 (indexSize (written_footer bs es))"
    by (rule read_at_append) (rule written_chunks_pos)
  then have rd: "read_at (written_file bs es) (indexOffset (written_footer bs es))
                   (indexSize (written_footer bs es)) = Some (IndexBlock (written_index bs es))"
    by (simp add: fl written_indexOffset) (simp add: written_footer_def)
  have rv: "rev (written_file bs es) = ?ft # ?ix # rev ?pre"
    by (simp add: fl)
  show ?thesis
    using assms by (simp add: SSTableReader_new_def rv rd)
qed

lemma assign_offsets_nth:
  "i < length bs \<Longrightarrow>
   fst (assign_offsets off bs) ! i =
     (bs ! i)\<lparr>blockOffset := off + sum_list (map (\<lambda>b. fst (blockData b)) (take i bs))\<rparr>"
proof (induction bs arbitrary: off i)
  case Nil
  then show ?case by simp
next
  case (Cons b bs)
  then show ?case by (cases i) (simp_all add: Let_def add.assoc)
qed

lemma written_index_nth:
  assumes "i < length (written_groups bs es)"
  shows "written_index bs es ! i =
     \<lparr>startKey = fst (hd (written_groups bs es ! i)),
      endKey = fst (last (written_groups bs es ! i)),
      offset = sum_list (map fst (take i (map blockData (written_blocks bs es)))),
      size' = fst (blockData (finalizeBlock (written_groups bs es ! i)))\<rparr>"
proof -
  have "sum_list (map (\<lambda>b. fst (blockData b)) (take i (map finalizeBlock (written_groups bs es))))
      = sum_list (map fst (take i (map blockData (written_blocks bs es))))"
    by (simp add: written_blocks_data take_map comp_def)
  then show ?thesis
    using assms
    by (simp add: written_index_def written_blocks_def buildDataBlocks_split assign_offsets_nth
        index_of_block_def finalizeBlock_def flip: written_groups_def)
qed

lemma written_index_length: "length (written_index bs es) = length (written_groups bs es)"
  by (simp add: written_index_def written_blocks_length)

lemma loadBlock_written:
  assumes f: "tables d (filePath r) = Some (written_file bs es)"
    and i: "i < length (written_groups bs es)"
  shows "loadBlock d r (written_index bs es ! i) = Inr (stored_of (written_groups bs es ! i))"
proof -
  let ?cs = "map blockData (written_blocks bs es)"
  let ?tail = "[(utf8_length (index_text (written_index bs es)), IndexBlock (written_index bs es)),
      (utf8_length (footer_text (written_footer bs es)), FooterBlock (written_footer bs es))]"
  have len: "i < length ?cs" using i by (simp add: written_blocks_length)
  have "?cs = take i ?cs @ ?cs ! i # drop (Suc i) ?cs"
    using len by (rule id_take_nth_drop)
  then have "?cs @ ?tail = (take i ?cs @ ?cs ! i # drop (Suc i) ?cs) @ ?tail"
    by (rule arg_cong[where f = "\<lambda>z. z @ ?tail"])
  then have split: "written_file bs es = take i ?cs @ (?cs ! i # drop (Suc i) ?cs @ ?tail)"
    by (simp add: written_file_def)
  have pos: "\<forall>c \<in> set (take i ?cs). 0 < fst c"
    using written_chunks_pos[of bs es] by (meson in_set_takeD)
  have ci: "?cs ! i = blockData (finalizeBlock (written_groups bs es ! i))"
    using i by (simp add: written_blocks_data)
  have "read_at (take i ?cs @ (?cs ! i # drop (Suc i) ?cs @ ?tail))
          (sum_list (map fst (take i ?cs)) + 0) (fst (?cs ! i))
        = read_at (?cs ! i # drop (Suc i) ?cs @ ?tail) 0 (fst (?cs ! i))"
    by (rule read_at_append) (rule pos)
  also have "\<dots> = Some (snd (?cs ! i))"
    by (cases "?cs ! i") simp
  finally have "read_at (written_file bs es) (sum_list (map fst (take i ?cs))) (fst (?cs ! i))
      = Some (DataBlock (stored_of (written_groups bs es ! i)))"
    using split by (simp add: ci finalizeBlock_def stored_of_def)
  then show ?thesis
    using f i by (simp add: loadBlock_def written_index_nth ci)
qed

lemma iterate_blocks_all2:
  "list_all2 (\<lambda>ie es. loadBlock d r ie = Inr es) ies ess \<Longrightarrow>
   iterate_blocks d r ies = Inr (concat (map handed_out ess))"
  by (induction rule: list_all2_induct) (simp_all add: handed_out_def)

lemma iterator_written:
  assumes "tables d p = Some (written_file bs es)"
  shows "SSTableReader_iterator d
           \<lparr>filePath = p, footer = written_footer bs es, index = written_index bs es\<rparr>
         = Inr (handed_out (stored_of (written_entries es)))"
proof -
  let ?r = "\<lparr>filePath = p, footer = written_footer bs es, index = written_index bs es\<rparr>"
  have "list_all2 (\<lambda>ie es. loadBlock d ?r ie = Inr es)
          (written_index bs es) (map stored_of (written_groups bs es))"
    using assms by (simp add: list_all2_conv_all_nth written_index_length loadBlock_written)
  then have "iterate_blocks d ?r (written_index bs es)
      = Inr (concat (map handed_out (map stored_of (written_groups bs es))))"
    by (rule iterate_blocks_all2)
  also have "concat (map handed_out (map stored_of (written_groups bs es)))
      = handed_out (stored_of (concat (written_groups bs es)))"
    by (simp add: handed_out_def stored_of_def map_concat comp_def)
  finally show ?thesis
    by (simp add: SSTableReader_iterator_def concat_written_groups)
qed

lemma binarySearchBlock_loop_miss:
  "(\<forall>e \<in> set es. fst e \<noteq> k) \<Longrightarrow> 0 \<le> l \<Longrightarrow> r < int (length es) \<Longrightarrow>
   binarySearchBlock_loop es k l r = None"
proof (induction es k l r rule: binarySearchBlock_loop.induct)
  case (1 entries key left right)
  show ?case
  proof (cases "left \<le> right")
    case False
    then show ?thesis by (simp add: binarySearchBlock_loop.simps)
  next
    case True
    let ?mid = "(left + right) div 2"
    from True 1(4,5) have m: "0 \<le> ?mid" "?mid < int (length entries)" "left \<le> ?mid" "?mid \<le> right"
      by auto
    then have "entries ! nat ?mid \<in> set entries" by simp
    with 1(3) have ne: "fst (entries ! nat ?mid) \<noteq> key" by blast
    show ?thesis
    proof (cases "fst (entries ! nat ?mid) < key")
      case lt: True
      have "binarySearchBlock_loop entries key (?mid + 1) right = None"
        using 1(1)[OF True refl refl ne lt 1(3)] m 1(5) by simp
      then show ?thesis
        using True ne lt by (subst binarySearchBlock_loop.simps) (simp add: Let_def)
    next
      case ge: False
      have "binarySearchBlock_loop entries key left (?mid - 1) = None"
        using 1(2)[OF True refl refl ne ge 1(3)] m 1(4) by simp
      then show ?thesis
        using True ne ge by (subst binarySearchBlock_loop.simps) (simp add: Let_def)
    qed
  qed
qed

lemma binarySearchBlock_miss:
  "\<forall>e \<in> set es. fst e \<noteq> k \<Longrightarrow> binarySearchBlock es k = None"
  unfolding binarySearchBlock_def by (rule binarySearchBlock_loop_miss) simp_all

lemma sorted_keys_nth_less:
  "sorted_wrt (<) (map fst es) \<Longrightarrow> i < j \<Longrightarrow> j < length es \<Longrightarrow> fst (es ! i) < fst (es ! j)"
  by (simp add: sorted_wrt_map sorted_wrt_iff_nth_less)

lemma binarySearchBlock_loop_hit:
  "sorted_wrt (<) (map fst es) \<Longrightarrow> 0 \<le> l \<Longrightarrow> r < int (length es) \<Longrightarrow>
   l \<le> int i \<Longrightarrow> int i \<le> r \<Longrightarrow> fst (es ! i) = k \<Longrightarrow>
   binarySearchBlock_loop es k l r = Some (es ! i)"
proof (induction es k l r rule: binarySearchBlock_loop.induct)
  case (1 entries key left right)
  let ?mid = "(left + right) div 2"
  from 1(4-7) have le: "left \<le> right" by simp
  from le 1(4,5) have m: "0 \<le> ?mid" "?mid < int (length entries)" "left \<le> ?mid" "?mid \<le> right"
    by auto
  have il: "i < length entries" using 1(5,7) by simp
  show ?case
  proof (cases "fst (entries ! nat ?mid) = key")
    case True
    have "nat ?mid = i"
    proof (rule ccontr)
      assume "nat ?mid \<noteq> i"
      then consider "nat ?mid < i" | "i < nat ?mid" by linarith
      then show False
      proof cases
        case 1
        with sorted_keys_nth_less[OF \<open>sorted_wrt (<) (map fst entries)\<close> 1 il] True \<open>fst (entries ! i) = key\<close>
        show False by simp
      next
        case 2
        have "nat ?mid < length entries" using m by simp
        with sorted_keys_nth_less[OF \<open>sorted_wrt (<) (map fst entries)\<close> 2] True \<open>fst (entries ! i) = key\<close>
        show False by simp
      qed
    qed
    then show ?thesis
      using le True by (subst binarySearchBlock_loop.simps) (simp add: Let_def)
  next
    case ne: False
    show ?thesis
    proof (cases "fst (entries ! nat ?mid) < key")
      case lt: True
      have "nat ?mid < i"
      proof (rule ccontr)
        assume "\<not> nat ?mid < i"
        with ne \<open>fst (entries ! i) = key\<close> have "i < nat ?mid" by (cases "nat ?mid = i") auto
        moreover have "nat ?mid < length entries" using m by simp
        ultimately have "fst (entries ! i) < fst (entries ! nat ?mid)"
          using sorted_keys_nth_less[OF \<open>sorted_wrt (<) (map fst entries)\<close>] by blast
        with lt \<open>fst (entries ! i) = key\<close> show False by simp
      qed
      then have "?mid + 1 \<le> int i" using m by linarith
      then have "binarySearchBlock_loop entries key (?mid + 1) right = Some (entries ! i)"
        using 1(1)[OF le refl refl ne lt 1(3)] m 1(5,7,8) by simp
      then show ?thesis
        using le ne lt by (subst binarySearchBlock_loop.simps) (simp add: Let_def)
    next
      case ge: False
      have "i < nat ?mid"
      proof (rule ccontr)
        assume "\<not> i < nat ?mid"
        with ne \<open>fst (entries ! i) = key\<close> have "nat ?mid < i" by (cases "nat ?mid = i") auto
        then have "fst (entries ! nat ?mid) < fst (entries ! i)"
          using sorted_keys_nth_less[OF \<open>sorted_wrt (<) (map fst entries)\<close> _ il] by blast
        with ge \<open>fst (entries ! i) = key\<close> show False by simp
      qed
      then have "int i \<le> ?mid - 1" using m by linarith
      then have "binarySearchBlock_loop entries key left (?mid - 1) = Some (entries ! i)"
        using 1(2)[OF le refl refl ne ge 1(3)] m 1(4,6,8) by simp
      then show ?thesis
        using le ne ge by (subst binarySearchBlock_loop.simps) (simp add: Let_def)
    qed
  qed
qed

lemma binarySearchBlock_hit:
  "sorted_wrt (<) (map fst es) \<Longrightarrow> i < length es \<Longrightarrow>
   binarySearchBlock es (fst (es ! i)) = Some (es ! i)"
  unfolding binarySearchBlock_def
  by (rule binarySearchBlock_loop_hit[where i = i]) simp_all

lemma index_sorted_start_mono:
  assumes "index_sorted ies" "i \<le> j" "j < length ies"
  shows "startKey (ies ! i) \<le> startKey (ies ! j)"
proof (cases "i = j")
  case True
  then show ?thesis by simp
next
  case False
  with assms(2) have lt: "i < j" by simp
  with assms(1,3) have "endKey (ies ! i) < startKey (ies ! j)"
    by (simp add: index_sorted_def)
  moreover from assms(1,3) lt have "startKey (ies ! i) \<le> endKey (ies ! i)"
    by (simp add: index_sorted_def)
  ultimately show ?thesis
    by (meson order.trans order.strict_implies_order)
qed

lemma index_sorted_end_mono:
  assumes "index_sorted ies" "i \<le> j" "j < length ies"
  shows "endKey (ies ! i) \<le> endKey (ies ! j)"
proof (cases "i = j")
  case True
  then show ?thesis by simp
next
  case False
  with assms(2) have lt: "i < j" by simp
  with assms(1,3) have "endKey (ies ! i) < startKey (ies ! j)"
    by (simp add: index_sorted_def)
  moreover from assms(1,3) have "startKey (ies ! j) \<le> endKey (ies ! j)"
    by (simp add: index_sorted_def)
  ultimately show ?thesis
    by (meson order.trans order.strict_implies_order)
qed

lemma findBlockIndex_loop_exit:
  "\<not> left \<le> right \<Longrightarrow> findBlockIndex_loop idx key left right result = result"
  by (simp add: findBlockIndex_loop.simps)

lemma findBlockIndex_loop_hit:
  "left \<le> right \<Longrightarrow> startKey (idx ! nat ((left + right) div 2)) \<le> key \<Longrightarrow>
   key \<le> endKey (idx ! nat ((left + right) div 2)) \<Longrightarrow>
   findBlockIndex_loop idx key left right result = (left + right) div 2"
  by (subst findBlockIndex_loop.simps) (simp add: Let_def)

lemma findBlockIndex_loop_lt:
  "left \<le> right \<Longrightarrow> key < startKey (idx ! nat ((left + right) div 2)) \<Longrightarrow>
   findBlockIndex_loop idx key left right result =
     findBlockIndex_loop idx key left ((left + right) div 2 - 1) result"
  by (subst findBlockIndex_loop.simps) (auto simp add: Let_def)

lemma findBlockIndex_loop_gt:
  "left \<le> right \<Longrightarrow> \<not> key < startKey (idx ! nat ((left + right) div 2)) \<Longrightarrow>
   \<not> key \<le> endKey (idx ! nat ((left + right) div 2)) \<Longrightarrow>
   findBlockIndex_loop idx key left right result =
     findBlockIndex_loop idx key ((left + right) div 2 + 1) right ((left + right) div 2)"
  by (subst findBlockIndex_loop.simps) (auto simp add: Let_def)

lemma findBlockIndex_loop_spec:
  "index_sorted ies \<Longrightarrow> 0 \<le> left \<Longrightarrow> right < int (length ies) \<Longrightarrow> left \<le> right + 1 \<Longrightarrow>
   result = left - 1 \<Longrightarrow>
   (\<forall>j < length ies. int j < left \<longrightarrow> endKey (ies ! j) < k) \<Longrightarrow>
   (\<forall>j < length ies. right < int j \<longrightarrow> k < startKey (ies ! j)) \<Longrightarrow>
   last_block_le ies k (findBlockIndex_loop ies k left right result)"
proof (induction ies k left right result rule: findBlockIndex_loop.induct)
  case (1 idx key left right result)
  note srt = \<open>index_sorted idx\<close>
  show ?case
  proof (cases "left \<le> right")
    case False
    with 1(6) have eq: "left = right + 1" by simp
    have "last_block_le idx key result"
      unfolding last_block_le_def
    proof (intro conjI allI impI)
      show "- 1 \<le> result" using 1(4,7) by simp
      show "result < int (length idx)" using 1(5,7) eq by simp
    next
      fix j assume j: "j < length idx" "int j \<le> result"
      then have "endKey (idx ! j) < key" using 1(8) 1(7) by simp
      moreover have "startKey (idx ! j) \<le> endKey (idx ! j)"
        using srt j by (simp add: index_sorted_def)
      ultimately show "startKey (idx ! j) \<le> key" by (meson order.trans order.strict_trans1 order.strict_trans2 order.strict_implies_order)
    next
      fix j assume j: "j < length idx" "result < int j"
      then show "key < startKey (idx ! j)" using 1(9) 1(7) eq by simp
    qed
    then show ?thesis using False by (simp add: findBlockIndex_loop_exit)
  next
    case True
    let ?mid = "(left + right) div 2"
    let ?b = "idx ! nat ?mid"
    from True 1(4,5) have m: "0 \<le> ?mid" "?mid < int (length idx)" "left \<le> ?mid" "?mid \<le> right"
      by auto
    then have ml: "nat ?mid < length idx" by simp
    show ?thesis
    proof (cases "key \<ge> startKey ?b \<and> key \<le> endKey ?b")
      case hit: True
      have "last_block_le idx key ?mid"
        unfolding last_block_le_def
      proof (intro conjI allI impI)
        show "- 1 \<le> ?mid" using m by simp
        show "?mid < int (length idx)" using m by simp
      next
        fix j assume j: "j < length idx" "int j \<le> ?mid"
        then have "j \<le> nat ?mid" using m by linarith
        then have "startKey (idx ! j) \<le> startKey ?b"
          using index_sorted_start_mono[OF srt _ ml] by simp
        with hit show "startKey (idx ! j) \<le> key" by (meson order.trans order.strict_trans1 order.strict_trans2 order.strict_implies_order)
      next
        fix j assume j: "j < length idx" "?mid < int j"
        then have "nat ?mid < j" using m by linarith
        with srt j have "endKey ?b < startKey (idx ! j)" by (simp add: index_sorted_def)
        with hit show "key < startKey (idx ! j)" by (meson order.trans order.strict_trans1 order.strict_trans2 order.strict_implies_order)
      qed
      then show ?thesis
        using True hit by (simp add: findBlockIndex_loop_hit)
    next
      case nohit: False
      show ?thesis
      proof (cases "key < startKey ?b")
        case lt: True
        have "last_block_le idx key (findBlockIndex_loop idx key left (?mid - 1) result)"
        proof (rule 1(1)[OF True refl refl nohit lt srt 1(4)])
          show "?mid - 1 < int (length idx)" using m by simp
          show "left \<le> ?mid - 1 + 1" using m by simp
          show "result = left - 1" by (rule 1(7))
          show "\<forall>j<length idx. int j < left \<longrightarrow> endKey (idx ! j) < key" by (rule 1(8))
          show "\<forall>j<length idx. ?mid - 1 < int j \<longrightarrow> key < startKey (idx ! j)"
          proof (intro allI impI)
            fix j assume j: "j < length idx" "?mid - 1 < int j"
            then have "nat ?mid \<le> j" using m by linarith
            then have "startKey ?b \<le> startKey (idx ! j)"
              using index_sorted_start_mono[OF srt _ j(1)] by simp
            with lt show "key < startKey (idx ! j)" by (meson order.trans order.strict_trans1 order.strict_trans2 order.strict_implies_order)
          qed
        qed
        then show ?thesis
          using findBlockIndex_loop_lt[OF True lt] by simp
      next
        case ge: False
        with nohit have gt: "endKey ?b < key" by auto
        have "last_block_le idx key (findBlockIndex_loop idx key (?mid + 1) right ?mid)"
        proof (rule 1(2)[OF True refl refl nohit ge srt])
          show "0 \<le> ?mid + 1" using m by simp
          show "right < int (length idx)" by (rule 1(5))
          show "?mid + 1 \<le> right + 1" using m by simp
          show "?mid = ?mid + 1 - 1" by simp
          show "\<forall>j<length idx. right < int j \<longrightarrow> key < startKey (idx ! j)" by (rule 1(9))
          show "\<forall>j<length idx. int j < ?mid + 1 \<longrightarrow> endKey (idx ! j) < key"
          proof (intro allI impI)
            fix j assume j: "j < length idx" "int j < ?mid + 1"
            then have "j \<le> nat ?mid" using m by linarith
            then have "endKey (idx ! j) \<le> endKey ?b"
              using index_sorted_end_mono[OF srt _ ml] by simp
            with gt show "endKey (idx ! j) < key" by (meson order.trans order.strict_trans1 order.strict_trans2 order.strict_implies_order)
          qed
        qed
        moreover have "\<not> key \<le> endKey ?b" using gt by simp
        ultimately show ?thesis
          using findBlockIndex_loop_gt[OF True ge] by simp
      qed
    qed
  qed
qed

lemma findBlockIndex_spec:
  "index_sorted ies \<Longrightarrow> last_block_le ies k (findBlockIndex ies k)"
  unfolding findBlockIndex_def
  by (rule findBlockIndex_loop_spec) simp_all

lemma sorted_wrt_concat_inner:
  "sorted_wrt P (concat xss) \<Longrightarrow> xs \<in> set xss \<Longrightarrow> sorted_wrt P xs"
  by (induction xss) (auto simp: sorted_wrt_append)

lemma sorted_wrt_concat_across:
  "sorted_wrt P (concat xss) \<Longrightarrow> i < j \<Longrightarrow> j < length xss \<Longrightarrow>
   x \<in> set (xss ! i) \<Longrightarrow> y \<in> set (xss ! j) \<Longrightarrow> P x y"
proof (induction xss arbitrary: i j)
  case Nil
  then show ?case by simp
next
  case (Cons xs xss)
  from Cons.prems(1) have s: "sorted_wrt P (concat xss)"
    and c: "\<forall>a \<in> set xs. \<forall>b \<in> set (concat xss). P a b"
    by (simp_all add: sorted_wrt_append)
  from Cons.prems(2) obtain j' where j: "j = Suc j'" by (cases j) auto
  show ?case
  proof (cases i)
    case 0
    have "y \<in> set (concat xss)" using Cons.prems(3,5) j by auto
    moreover have "x \<in> set xs" using Cons.prems(4) 0 by simp
    ultimately show ?thesis using c by blast
  next
    case (Suc i')
    with Cons.IH[OF s, of i' j'] Cons.prems j show ?thesis by simp
  qed
qed

lemma sorted_keys_hd_last:
  fixes g :: "(string \<times> 'v) list"
  assumes "sorted_wrt (<) (map fst g)" "x \<in> set g"
  shows "fst (hd g) \<le> fst x \<and> fst x \<le> fst (last g)"
proof -
  from assms(2) obtain i where i: "i < length g" "g ! i = x" by (auto simp: in_set_conv_nth)
  then have ne: "g \<noteq> []" by auto
  have "fst (hd g) \<le> fst x"
  proof (cases "i = 0")
    case True
    with i ne show ?thesis by (simp add: hd_conv_nth)
  next
    case False
    then have "fst (g ! 0) < fst (g ! i)"
      using sorted_keys_nth_less[OF assms(1), of 0 i] i by simp
    with i ne show ?thesis by (simp add: hd_conv_nth)
  qed
  moreover have "fst x \<le> fst (last g)"
  proof (cases "i = length g - 1")
    case True
    with i ne show ?thesis by (simp add: last_conv_nth)
  next
    case False
    then have "fst (g ! i) < fst (g ! (length g - 1))"
      using sorted_keys_nth_less[OF assms(1), of i "length g - 1"] i by simp
    with i ne show ?thesis by (simp add: last_conv_nth)
  qed
  ultimately show ?thesis ..
qed

lemma written_entries_keys [simp]: "map fst (written_entries es) = map fst es"
  by (simp add: written_entries_def comp_def)

lemma stored_of_keys [simp]: "map fst (stored_of g) = map fst g"
  by (simp add: stored_of_def comp_def)

lemma written_groups_sorted:
  assumes "sorted_wrt (<) (map fst es)" "g \<in> set (written_groups bs es)"
  shows "sorted_wrt (<) (map fst g)"
proof -
  have "sorted_wrt (\<lambda>a b. fst a < fst b) (concat (written_groups bs es))"
    using assms(1) by (simp add: concat_written_groups flip: sorted_wrt_map)
  then have "sorted_wrt (\<lambda>a b. fst a < fst b) g"
    using assms(2) by (rule sorted_wrt_concat_inner)
  then show ?thesis by (simp add: sorted_wrt_map)
qed

lemma written_groups_across:
  assumes "sorted_wrt (<) (map fst es)" "i < j" "j < length (written_groups bs es)"
    "x \<in> set (written_groups bs es ! i)" "y \<in> set (written_groups bs es ! j)"
  shows "fst x < fst y"
proof -
  have "sorted_wrt (\<lambda>a b. fst a < fst b) (concat (written_groups bs es))"
    using assms(1) by (simp add: concat_written_groups flip: sorted_wrt_map)
  from sorted_wrt_concat_across[OF this assms(2-5)] show ?thesis .
qed

lemma written_index_keys:
  "i < length (written_groups bs es) \<Longrightarrow>
   startKey (written_index bs es ! i) = fst (hd (written_groups bs es ! i)) \<and>
   endKey (written_index bs es ! i) = fst (last (written_groups bs es ! i))"
  by (simp add: written_index_nth)

lemma written_index_sorted:
  assumes "sorted_wrt (<) (map fst es)"
  shows "index_sorted (written_index bs es)"
  unfolding index_sorted_def
proof (intro conjI allI impI)
  fix j assume "j < length (written_index bs es)"
  then have j: "j < length (written_groups bs es)" by (simp add: written_index_length)
  then have g: "written_groups bs es ! j \<in> set (written_groups bs es)" by simp
  then have ne: "written_groups bs es ! j \<noteq> []" by (rule written_groups_nonempty)
  from sorted_keys_hd_last[OF written_groups_sorted[OF assms g], of "last (written_groups bs es ! j)"] ne
  show "startKey (written_index bs es ! j) \<le> endKey (written_index bs es ! j)"
    by (simp add: written_index_keys[OF j])
next
  fix i j assume "i < j \<and> j < length (written_index bs es)"
  then have ij: "i < j" "j < length (written_groups bs es)" "i < length (written_groups bs es)"
    by (simp_all add: written_index_length)
  have "written_groups bs es ! i \<in> set (written_groups bs es)"
    and "written_groups bs es ! j \<in> set (written_groups bs es)"
    using ij by simp_all
  then have nei: "written_groups bs es ! i \<noteq> []" and nej: "written_groups bs es ! j \<noteq> []"
    by (simp_all add: written_groups_nonempty)
  from written_groups_across[OF assms ij(1,2), of "last (written_groups bs es ! i)"
      "hd (written_groups bs es ! j)"] nei nej
  show "endKey (written_index bs es ! i) < startKey (written_index bs es ! j)"
    by (simp add: written_index_keys ij)
qed

lemma hd_concat_nonempty:
  "xss \<noteq> [] \<Longrightarrow> hd xss \<noteq> [] \<Longrightarrow> hd (concat xss) = hd (hd xss)"
  by (cases xss) simp_all

lemma written_groups_not_Nil: "es \<noteq> [] \<Longrightarrow> written_groups bs es \<noteq> []"
  by (simp add: written_groups_def written_entries_def split_loop_not_Nil)

lemma written_index_start0:
  assumes "es \<noteq> []"
  shows "startKey (written_index bs es ! 0) = fst (hd es)"
proof -
  have ne: "written_groups bs es \<noteq> []" using assms by (rule written_groups_not_Nil)
  then have "hd (written_groups bs es) \<in> set (written_groups bs es)" by simp
  then have "hd (written_groups bs es) \<noteq> []" by (rule written_groups_nonempty)
  with ne have "hd (concat (written_groups bs es)) = hd (hd (written_groups bs es))"
    by (rule hd_concat_nonempty)
  then have "hd (written_groups bs es ! 0) = hd (written_entries es)"
    using ne by (simp add: concat_written_groups hd_conv_nth)
  moreover have "fst (hd (written_entries es)) = fst (hd es)"
    using assms by (simp add: written_entries_def hd_map)
  ultimately show ?thesis
    using ne by (simp add: written_index_keys)
qed

lemma key_in_some_group:
  assumes "x \<in> set (written_entries es)"
  shows "\<exists>j < length (written_groups bs es). x \<in> set (written_groups bs es ! j)"
proof -
  from assms have "x \<in> set (concat (written_groups bs es))"
    by (simp add: concat_written_groups)
  then obtain g where "g \<in> set (written_groups bs es)" "x \<in> set g" by auto
  then show ?thesis by (auto simp: in_set_conv_nth)
qed

lemma get_written:
  fixes es :: "(string \<times> jsval) list"
  assumes srt: "sorted_wrt (<) (map fst es)" and ne: "es \<noteq> []"
    and f: "tables d p = Some (written_file bs es)"
  shows "SSTableReader_get d
           \<lparr>filePath = p, footer = written_footer bs es, index = written_index bs es\<rparr> k
         = Inr (case map_of (stored_of (written_entries es)) k of
                  None \<Rightarrow> Undefined | Some j \<Rightarrow> reader_value j)"
proof -
  let ?r = "\<lparr>filePath = p, footer = written_footer bs es, index = written_index bs es\<rparr>"
  let ?G = "written_groups bs es"
  let ?W = "written_entries es"
  let ?S = "stored_of ?W"
  have srtW: "sorted_wrt (<) (map fst ?W)" using srt by simp
  have dist: "distinct (map fst ?S)"
    using srt strict_sorted_iff[of "map fst es"] by simp
  have mn: "minKey (written_footer bs es) = fst (hd es)"
    and mx: "maxKey (written_footer bs es) = fst (last es)"
    by (simp_all add: written_footer_def)
  have bounds: "fst (hd es) \<le> fst x \<and> fst x \<le> fst (last es)" if "x \<in> set es" for x
    using sorted_keys_hd_last[OF srt that] .
  show ?thesis
  proof (cases "k < fst (hd es) \<or> k > fst (last es)")
    case True
    have "k \<notin> fst ` set es"
    proof
      assume "k \<in> fst ` set es"
      then obtain x where "x \<in> set es" "fst x = k" by auto
      with bounds[of x] True show False by auto
    qed
    then have "map_of ?S k = None"
      by (simp add: map_of_eq_None_iff stored_of_def written_entries_def image_image)
    with True show ?thesis
      by (simp add: SSTableReader_get_def mn mx)
  next
    case False
    then have inr: "fst (hd es) \<le> k" "k \<le> fst (last es)" by auto
    have spec: "last_block_le (written_index bs es) k (findBlockIndex (written_index bs es) k)"
      by (rule findBlockIndex_spec[OF written_index_sorted[OF srt]])
    have Gne: "?G \<noteq> []" using ne by (rule written_groups_not_Nil)
    have nm1: "findBlockIndex (written_index bs es) k \<noteq> - 1"
    proof
      assume "findBlockIndex (written_index bs es) k = - 1"
      with spec Gne have "k < startKey (written_index bs es ! 0)"
        by (simp add: last_block_le_def written_index_length)
      with inr(1) written_index_start0[OF ne, of bs] show False by simp
    qed
    define i where "i = nat (findBlockIndex (written_index bs es) k)"
    from spec have "- 1 \<le> findBlockIndex (written_index bs es) k"
      and "findBlockIndex (written_index bs es) k < int (length ?G)"
      by (simp_all add: last_block_le_def written_index_length)
    with nm1 have i: "findBlockIndex (written_index bs es) k = int i" "i < length ?G"
      unfolding i_def by linarith+
    have ld: "loadBlock d ?r (written_index bs es ! i) = Inr (stored_of (?G ! i))"
      using f i(2) by (simp add: loadBlock_written)
    have gi: "?G ! i \<in> set ?G" using i(2) by simp
    have srtgi: "sorted_wrt (<) (map fst (stored_of (?G ! i)))"
      using written_groups_sorted[OF srt gi] by simp
    have unfold: "SSTableReader_get d ?r k =
        (case binarySearchBlock (stored_of (?G ! i)) k of
           None \<Rightarrow> Inr Undefined | Some entry \<Rightarrow> Inr (reader_value (snd entry)))"
      using False by (simp add: SSTableReader_get_def mn mx i(1) ld)
    show ?thesis
    proof (cases "k \<in> fst ` set ?W")
      case miss: False
      have "\<forall>e \<in> set (stored_of (?G ! i)). fst e \<noteq> k"
      proof
        fix e assume "e \<in> set (stored_of (?G ! i))"
        then obtain x where x: "x \<in> set (?G ! i)" "fst e = fst x"
          by (auto simp: stored_of_def)
        with gi have "x \<in> set (concat ?G)" by auto
        then have "x \<in> set ?W" by (simp add: concat_written_groups)
        with miss x show "fst e \<noteq> k" by auto
      qed
      then have "binarySearchBlock (stored_of (?G ! i)) k = None"
        by (rule binarySearchBlock_miss)
      moreover have "map_of ?S k = None"
        using miss by (simp add: map_of_eq_None_iff stored_of_def image_image)
      ultimately show ?thesis using unfold by simp
    next
      case hit: True
      then obtain x where x: "x \<in> set ?W" "fst x = k" by auto
      from key_in_some_group[OF x(1), of bs] obtain j where
        j: "j < length ?G" "x \<in> set (?G ! j)" by blast
      have gj: "?G ! j \<in> set ?G" using j(1) by simp
      have sj: "startKey (written_index bs es ! j) \<le> k"
        using sorted_keys_hd_last[OF written_groups_sorted[OF srt gj] j(2)] x(2)
        by (simp add: written_index_keys[OF j(1)])
      have "j = i"
      proof (rule ccontr)
        assume "j \<noteq> i"
        then consider "i < j" | "j < i" by linarith
        then show False
        proof cases
          case 1
          with spec i j(1) have "k < startKey (written_index bs es ! j)"
            by (simp add: last_block_le_def written_index_length)
          with sj show False by simp
        next
          case 2
          have nei: "?G ! i \<noteq> []" using gi by (rule written_groups_nonempty)
          then have "hd (?G ! i) \<in> set (?G ! i)" by simp
          from written_groups_across[OF srt 2 i(2) j(2) this]
          have "k < startKey (written_index bs es ! i)"
            using x(2) by (simp add: written_index_keys[OF i(2)])
          moreover from spec i have "startKey (written_index bs es ! i) \<le> k"
            by (simp add: last_block_le_def written_index_length)
          ultimately show False by simp
        qed
      qed
      with j have xi: "x \<in> set (?G ! i)" by simp
      then obtain n where n: "n < length (?G ! i)" "?G ! i ! n = x"
        by (auto simp: in_set_conv_nth)
      have sn: "stored_of (?G ! i) ! n = (k, to_json (snd x))"
        using n x(2) by (simp add: stored_of_def)
      have "binarySearchBlock (stored_of (?G ! i)) (fst (stored_of (?G ! i) ! n))
              = Some (stored_of (?G ! i) ! n)"
        by (rule binarySearchBlock_hit[OF srtgi]) (simp add: stored_of_def n)
      then have bs: "binarySearchBlock (stored_of (?G ! i)) k = Some (k, to_json (snd x))"
        by (simp add: sn)
      have "(k, to_json (snd x)) \<in> set ?S"
        using x by (force simp: stored_of_def)
      with dist have "map_of ?S k = Some (to_json (snd x))"
        by (rule map_of_is_SomeI)
      with bs unfold show ?thesis by simp
    qed
  qed
qed

lemma reader_new_table:
  "tables d p = Some (written_file bs es) \<Longrightarrow> SSTableReader_new d p = Inr (table_reader p bs es)"
  unfolding table_reader_def by (rule reader_new_written)

lemma iterator_table:
  "tables d p = Some (written_file bs es) \<Longrightarrow>
   SSTableReader_iterator d (table_reader p bs es) = Inr (handed_out (stored_of (written_entries es)))"
  unfolding table_reader_def by (rule iterator_written)

lemma get_table:
  fixes es :: "(string \<times> jsval) list"
  shows "sorted_wrt (<) (map fst es) \<Longrightarrow> es \<noteq> [] \<Longrightarrow> tables d p = Some (written_file bs es) \<Longrightarrow>
   SSTableReader_get d (table_reader p bs es) k =
     Inr (case map_of (stored_of (written_entries es)) k of
            None \<Rightarrow> Undefined | Some j \<Rightarrow> reader_value j)"
  unfolding table_reader_def by (rule get_written)

lemma table_reader_sel [simp]:
  "filePath (table_reader p bs es) = p"
  "minKey (footer (table_reader p bs es)) = fst (hd es)"
  "maxKey (footer (table_reader p bs es)) = fst (last es)"
  "index (table_reader p bs es) = written_index bs es"
  by (simp_all add: table_reader_def written_footer_def)

lemma read_back_stream:
  "handed_out (stored_of (written_entries es))
     = map (\<lambda>e. (fst e, reader_value (to_json (writer_value (snd e))))) es"
  by (simp add: handed_out_def stored_of_def written_entries_def comp_def)


lemma replay_filter:
  "foldl replay_line (store, diag) ls =
     (fst (foldl replay_line (store, diag0) (filter (\<lambda>l. \<not> is_corrupt l) ls)),
      diag @ corrupt_texts ls)"
proof (induction ls arbitrary: store diag diag0)
  case Nil
  then show ?case by simp
next
  case (Cons l ls)
  show ?case
  proof (cases l)
    case Blank
    then show ?thesis using Cons.IH[of store diag diag0] by simp
  next
    case (Corrupt line)
    then show ?thesis using Cons.IH[of store "diag @ [line]" diag0] by simp
  next
    case (Record opn k v)
    then show ?thesis
      using Cons.IH[of "Map_set k (of_json v) store" diag diag0]
        Cons.IH[of "Map_delete k store" diag diag0] Cons.IH[of store diag diag0]
      by simp
  qed
qed

lemma corrupt_texts_filter_blank:
  "corrupt_texts (filter (\<lambda>l. l \<noteq> Blank) ls) = corrupt_texts ls"
  by (induction ls rule: corrupt_texts.induct) simp_all

lemma map_of_Map_set: "map_of (Map_set k v m) = (map_of m)(k \<mapsto> v)"
  by (induction m) auto

lemma keys_Map_set: "set (map fst (Map_set k v m)) = insert k (set (map fst m))"
  by (induction k v m rule: Map_set.induct) (simp_all add: insert_commute)

lemma distinct_Map_set: "distinct (map fst m) \<Longrightarrow> distinct (map fst (Map_set k v m))"
proof (induction m)
  case Nil
  then show ?case by simp
next
  case (Cons x m)
  obtain k' v' where x: "x = (k', v')" by (cases x)
  show ?case
  proof (cases "k' = k")
    case True
    with Cons.prems x show ?thesis by simp
  next
    case False
    from Cons have d: "distinct (map fst (Map_set k v m))" by simp
    from Cons.prems x have "k' \<notin> set (map fst m)" by simp
    with False have "k' \<notin> set (map fst (Map_set k v m))" by (simp only: keys_Map_set) simp
    with d x False show ?thesis by simp
  qed
qed

lemma map_of_Map_delete: "map_of (Map_delete k m) = (map_of m)(k := None)"
  by (induction m) (auto simp: Map_delete_def)

lemma distinct_Map_delete: "distinct (map fst m) \<Longrightarrow> distinct (map fst (Map_delete k m))"
  by (simp add: Map_delete_def distinct_map_filter)

lemma replay_line_effect:
  assumes "distinct (map fst store)"
  shows "map_of (fst (replay_line (store, diag) l)) = log_effect (map_of store) l \<and>
         distinct (map fst (fst (replay_line (store, diag) l)))"
  using assms
  by (cases l) (simp_all add: map_of_Map_set map_of_Map_delete distinct_Map_set distinct_Map_delete)

lemma replay_effect:
  "distinct (map fst store) \<Longrightarrow>
   map_of (fst (foldl replay_line (store, diag) ls)) = foldl log_effect (map_of store) ls \<and>
   distinct (map fst (fst (foldl replay_line (store, diag) ls)))"
proof (induction ls arbitrary: store diag)
  case Nil
  then show ?case by simp
next
  case (Cons l ls)
  obtain store' diag' where r: "replay_line (store, diag) l = (store', diag')"
    by (cases "replay_line (store, diag) l")
  from replay_line_effect[OF Cons.prems, of diag l] r
  have s: "map_of store' = log_effect (map_of store) l" "distinct (map fst store')" by simp_all
  from Cons.IH[OF s(2), of diag'] show ?case by (simp add: r s(1))
qed

lemma log_effect_filter_blank:
  "foldl log_effect m (filter (\<lambda>l. l \<noteq> Blank) ls) = foldl log_effect m ls"
proof (induction ls arbitrary: m)
  case Nil
  then show ?case by simp
next
  case (Cons l ls)
  then show ?case by (cases l) simp_all
qed

lemma block_of_key:
  fixes es :: "(string \<times> jsval) list"
  assumes srt: "sorted_wrt (<) (map fst es)" and ne: "es \<noteq> []" and lo: "fst (hd es) \<le> k"
  shows "\<exists>i < length (written_groups bs es).
           findBlockIndex (written_index bs es) k = int i \<and>
           startKey (written_index bs es ! i) \<le> k \<and>
           (\<forall>j < length (written_groups bs es). i < j \<longrightarrow> k < startKey (written_index bs es ! j))"
proof -
  let ?G = "written_groups bs es"
  let ?R = "findBlockIndex (written_index bs es) k"
  have spec: "last_block_le (written_index bs es) k ?R"
    by (rule findBlockIndex_spec[OF written_index_sorted[OF srt]])
  have Gne: "?G \<noteq> []" using ne by (rule written_groups_not_Nil)
  have nm1: "?R \<noteq> - 1"
  proof
    assume "?R = - 1"
    with spec Gne have "k < startKey (written_index bs es ! 0)"
      by (simp add: last_block_le_def written_index_length)
    with lo written_index_start0[OF ne, of bs] show False by simp
  qed
  define i where "i = nat ?R"
  from spec have "- 1 \<le> ?R" and "?R < int (length ?G)"
    by (simp_all add: last_block_le_def written_index_length)
  with nm1 have i: "?R = int i" "i < length ?G"
    unfolding i_def by linarith+
  from spec i have "startKey (written_index bs es ! i) \<le> k"
    and "\<forall>j < length ?G. i < j \<longrightarrow> k < startKey (written_index bs es ! j)"
    by (simp_all add: last_block_le_def written_index_length)
  with i show ?thesis by blast
qed

lemma three_blocks:
  "map startKey (written_index 30 [(''a'', Val (Data ''1'')), (''c'', Val (Data ''2'')), (''e'', Val (Data ''3''))])
     = [''a'', ''c'', ''e'']"
  "map endKey (written_index 30 [(''a'', Val (Data ''1'')), (''c'', Val (Data ''2'')), (''e'', Val (Data ''3''))])
     = [''a'', ''c'', ''e'']"
  by code_simp+

lemma new_two_levels:
  "LSMTree_new empty_disk [] h \<lparr>opt_memtableMaxSize = None, opt_level0MaxFiles = None, opt_maxLevels = Some 2\<rparr>
   = Inr \<lparr>memtableMaxSize = 4 * 1024 * 1024, level0MaxFiles = 4, maxLevels = 2,
          memtable = MemTable_new (4 * 1024 * 1024), levels = [[], []], sstableCounter = 0,
          fs = \<lparr>wal_log = Some [], tables = Map.empty\<rparr>, host = h\<rparr>"
  by (simp add: LSMTree_new_def LSMTree_recover_def empty_disk_def wal_append_def
      WriteAheadLog_recover_def numeral_2_eq_2)

section \<open>Numbers\<close>

lemma double_exact: "n \<le> 9007199254740992 \<Longrightarrow> double n = n"
  by (simp add: double_def)



lemma plus_one_exact: "n < 9007199254740992 \<Longrightarrow> plus_one n = n + 1"
  by (simp add: plus_one_def double_exact)


lemma plus_one_at_limit: "plus_one 9007199254740992 = 9007199254740992"
proof -
  have "bit_length 9007199254740993 = 54" by (simp add: bit_length.simps)
  then have "double 9007199254740993 = 9007199254740992" by (simp add: double_def)
  then show ?thesis by (simp add: plus_one_def)
qed

section \<open>Opening a directory, and the scenarios step by step\<close>







lemma not_digit [simp]: "\<not> is_digit (CHR ''_'')" "\<not> is_digit (CHR ''.'')"
  by (simp_all add: is_digit_def)








lemmas engine_defs =
  LSMTree_new_def LSMTree_recover_def LSMTree_set_def LSMTree_delete_def
  LSMTree_flushMemtable_def LSMTree_compactLevel_def
  wal_append_def WriteAheadLog_recover_def logSet_def logDelete_def
  MemTable_new_def MemTable_set_def MemTable_delete_def MemTable_entries_def
  MemTable_estimateSize_def MemTable_shouldFlush_def MemTable_TOMBSTONE_def
  level_at_def unlink_def Let_def empty_disk_def

lemma new_fresh:
  "LSMTree_new empty_disk [] h opts_flush_each = Inr (fresh_tree h 1 4)"
  "LSMTree_new empty_disk [] h opts_compact_second = Inr (fresh_tree h 1 2)"
  by (simp_all add: engine_defs numeral_2_eq_2)

lemma sst_names:
  "sst_name h 0 0 = ''level0_0.sst''"
  "sst_name h 0 (Suc 0) = ''level0_1.sst''"
  by code_simp+

lemma plus_one_small [simp]:
  "plus_one 0 = Suc 0"
  "plus_one 9 = 10"
  "plus_one 10 = 11"
  by (simp_all add: plus_one_exact)

lemma dir_names:
  "endsWith ''level0_0.sst'' ''.sst''"
  "regex_match ''level0_0.sst'' = Some (''0'', ''0'')"
  "parseInt ''0'' = 0"
  "\<not> endsWith ''wal.log'' ''.sst''"
  by code_simp+

lemma c2_new: "LSMTree_new empty_disk [] h opts_flush_at_80 = Inr (fresh_tree h 80 4)"
  by (simp add: engine_defs numeral_2_eq_2)

lemma c2_set:
  "LSMTree_set (fresh_tree h 80 4) ''k'' (Val (Str ''vvvvvvvvvv'')) = Inr (one_table_tree h (MemTable_new 80) [])"
  by (simp add: engine_defs sst_names write_eq reader_new_table)

lemma c2_delete:
  "LSMTree_delete (one_table_tree h (MemTable_new 80) []) ''k''
     = Inr (one_table_tree h tombstone_memtable [Record ''DELETE'' ''k'' None])"
  by (simp add: engine_defs)

lemma c2_reopen:
  "LSMTree_new (fs (one_table_tree h tombstone_memtable [Record ''DELETE'' ''k'' None]))
      [''level0_0.sst'', ''wal.log''] h opts_flush_at_80
     = Inr (one_table_tree h (MemTable_new 80) [Record ''DELETE'' ''k'' None])"
  by (simp add: engine_defs dir_names reader_new_table numeral_2_eq_2 Map_delete_def
      del: regex_match.simps)

lemma c2_observe:
  "LSMTree_get (one_table_tree h tombstone_memtable [Record ''DELETE'' ''k'' None]) ''k'' = Inr Undefined"
  "LSMTree_get (one_table_tree h (MemTable_new 80) [Record ''DELETE'' ''k'' None]) ''k''
     = Inr (Val (Str ''vvvvvvvvvv''))"
  "MemTable_get ''k'' (memtable (one_table_tree h (MemTable_new 80) [Record ''DELETE'' ''k'' None])) = Undefined"
  "wal_log (fs (one_table_tree h tombstone_memtable [Record ''DELETE'' ''k'' None]))
     = Some [Record ''DELETE'' ''k'' None]"
  by code_simp+

lemma new_no_flush:
  "LSMTree_new empty_disk [] h opts_no_flush = Inr (fresh_tree h 1000 4)"
  by (simp add: engine_defs numeral_2_eq_2)

lemma two_tables_written:
  "fst (SSTableWriter_write
         (fst (SSTableWriter_write empty_disk ''level0_9.sst'' 4096 [(''k'', Val (Str ''old''))]))
         ''level0_10.sst'' 4096 [(''k'', Val (Str ''new''))]) = two_tables_disk None"
  by (simp add: write_eq empty_disk_def)

lemma two_tables_names:
  "endsWith ''level0_10.sst'' ''.sst''"
  "regex_match ''level0_10.sst'' = Some (''0'', ''10'')"
  "endsWith ''level0_9.sst'' ''.sst''"
  "regex_match ''level0_9.sst'' = Some (''0'', ''9'')"
  "parseInt ''0'' = 0"
  "parseInt ''10'' = 10"
  "parseInt ''9'' = 9"
  by code_simp+

lemma two_tables_open:
  "LSMTree_new (two_tables_disk None) [''level0_10.sst'', ''level0_9.sst''] h
      opts_no_flush = Inr (two_tables_tree h)"
  by (simp add: engine_defs two_tables_names reader_new_table numeral_2_eq_2
      del: regex_match.simps)

lemma two_tables_observe:
  "LSMTree_get (two_tables_tree h) ''k'' = Inr (Val (Str ''old''))"
  "map (map filePath) (levels (two_tables_tree h)) = [[''level0_10.sst'', ''level0_9.sst''], []]"
  by code_simp+

section \<open>File names and the counter\<close>


























lemma limit_names:
  "endsWith ''level0_9007199254740992.sst'' ''.sst''"
  "regex_match ''level0_9007199254740992.sst'' = Some (''0'', ''9007199254740992'')"
  by code_simp+

lemma limit_numbers:
  "parseInt ''0'' = 0"
  "parseInt ''9007199254740992'' = 9007199254740992"
  "sst_name example_host 0 9007199254740992 = ''level0_9007199254740992.sst''"
  by (simp_all add: parseInt_def digits_value_def double_exact sst_name_def number_text_def
      decimal.simps hex_digit_def)

lemma limit_written:
  "fst (SSTableWriter_write empty_disk ''level0_9007199254740992.sst'' 4096 [(''a'', Val (Str ''old''))])
     = \<lparr>wal_log = None, tables = [''level0_9007199254740992.sst'' \<mapsto>
          written_file 4096 [(''a'', Val (Str ''old''))]]\<rparr>"
  by (simp add: write_eq empty_disk_def)

lemma limit_open:
  "LSMTree_new \<lparr>wal_log = None, tables = [''level0_9007199254740992.sst'' \<mapsto>
          written_file 4096 [(''a'', Val (Str ''old''))]]\<rparr>
      [''level0_9007199254740992.sst''] example_host opts_flush_at_80
   = Inr (limit_tree [table_reader ''level0_9007199254740992.sst'' 4096 [(''a'', Val (Str ''old''))]]
            [(''a'', Val (Str ''old''))])"
  by (simp add: engine_defs limit_names limit_numbers plus_one_at_limit reader_new_table
      numeral_2_eq_2 del: regex_match.simps)

lemma limit_set:
  "LSMTree_set (limit_tree [table_reader ''level0_9007199254740992.sst'' 4096 [(''a'', Val (Str ''old''))]]
            [(''a'', Val (Str ''old''))]) ''k'' (Val (Str ''vvvvvvvvvv''))
   = Inr (limit_tree [table_reader ''level0_9007199254740992.sst'' 4096 [(''a'', Val (Str ''old''))],
                      table_reader ''level0_9007199254740992.sst'' 4096 [(''k'', Val (Str ''vvvvvvvvvv''))]]
            [(''k'', Val (Str ''vvvvvvvvvv''))])"
  by (simp add: engine_defs limit_numbers plus_one_at_limit write_eq reader_new_table)

lemma limit_files_differ:
  "written_file 4096 [(''a'', Val (Str ''old''))] \<noteq> written_file 4096 [(''k'', Val (Str ''vvvvvvvvvv''))]"
  by code_simp

section \<open>The claims\<close>

subsection \<open>C5: replay of a log with an unparseable record\<close>

text \<open>
  C5 as stated fails. In the log below the second line does not parse. \<^verbatim>\<open>recover\<close> catches
  the error inside the loop and goes on with the next line, so the record after the corrupt
  one is replayed and \<open>b\<close> is in the recovered store; replaying only the prefix before the
  corrupt line would give a store without \<open>b\<close>.
\<close>

theorem recover_skips_corrupt_counterexample:
  "fst (WriteAheadLog_recover (Some
      [Record ''SET'' ''a'' (Some (Data ''1'')), Corrupt ''{op:SE'', Record ''SET'' ''b'' (Some (Data ''2''))]))
     = [(''a'', Val (Data ''1'')), (''b'', Val (Data ''2''))]
   \<and> fst (WriteAheadLog_recover (Some (spec_parseable_prefix
      [Record ''SET'' ''a'' (Some (Data ''1'')), Corrupt ''{op:SE'', Record ''SET'' ''b'' (Some (Data ''2''))])))
     = [(''a'', Val (Data ''1''))]"
  by (simp add: WriteAheadLog_recover_def spec_parseable_prefix_def)

text \<open>
  C5, amended: replay applies every record that parses, in log order, to the end of the log.
  The recovered store, read as a map from keys to values, is what results from the empty map
  when the lines are applied one after the other, a SET record binding its key, a DELETE
  record removing it, and a blank line, a corrupt line or a record with another operation
  changing nothing (\<^const>\<open>log_effect\<close>). The store holds every key once. The diagnostics
  are the corrupt lines in log order, and the result is the one for the log without its
  corrupt lines. So a record after a corrupt line contributes like any other.
\<close>

theorem recover_replays_every_parseable_record:
  "map_of (fst (WriteAheadLog_recover (Some ls))) = foldl log_effect Map.empty ls \<and>
   distinct (map fst (fst (WriteAheadLog_recover (Some ls)))) \<and>
   snd (WriteAheadLog_recover (Some ls)) = corrupt_texts ls \<and>
   WriteAheadLog_recover (Some ls) =
     (fst (WriteAheadLog_recover (Some (filter (\<lambda>l. \<not> is_corrupt l) ls))), corrupt_texts ls)"
proof -
  have "filter (\<lambda>l. \<not> is_corrupt l) (filter (\<lambda>l. l \<noteq> Blank) ls)
      = filter (\<lambda>l. l \<noteq> Blank) (filter (\<lambda>l. \<not> is_corrupt l) ls)"
    by (simp add: conj_commute)
  then have last: "WriteAheadLog_recover (Some ls) =
     (fst (WriteAheadLog_recover (Some (filter (\<lambda>l. \<not> is_corrupt l) ls))), corrupt_texts ls)"
    using replay_filter[of "[]" "[]" "filter (\<lambda>l. l \<noteq> Blank) ls" "[]"]
    by (simp add: WriteAheadLog_recover_def corrupt_texts_filter_blank)
  have e: "map_of (fst (WriteAheadLog_recover (Some ls))) = foldl log_effect Map.empty ls"
    and d: "distinct (map fst (fst (WriteAheadLog_recover (Some ls))))"
    using replay_effect[of "[]" "[]" "filter (\<lambda>l. l \<noteq> Blank) ls"]
    by (simp_all add: WriteAheadLog_recover_def log_effect_filter_blank)
  from last have s: "snd (WriteAheadLog_recover (Some ls)) = corrupt_texts ls"
    by (simp only: snd_conv)
  from e d s last show ?thesis by (intro conjI)
qed

subsection \<open>C6: the writer and input that is not sorted\<close>

text \<open>
  C6 as stated fails. \<^verbatim>\<open>write\<close> never compares keys; the only error it raises is the one
  for an empty stream. The stream below is not ascending, and the writer returns a footer
  and installs the file.
\<close>

theorem write_unsorted_counterexample:
  "\<not> sorted (map fst [(''b'', Val (Data ''1'')), (''a'', Val (Data ''2''))])
   \<and> \<not> isl (snd (SSTableWriter_write empty_disk ''t.sst'' 4096
                   [(''b'', Val (Data ''1'')), (''a'', Val (Data ''2''))]))
   \<and> tables empty_disk ''t.sst'' = None
   \<and> tables (fst (SSTableWriter_write empty_disk ''t.sst'' 4096
                   [(''b'', Val (Data ''1'')), (''a'', Val (Data ''2''))])) ''t.sst'' \<noteq> None"
  by (simp add: write_eq empty_disk_def)

text \<open>
  C6, amended: \<^verbatim>\<open>SSTableWriter.write\<close> raises an error exactly for the empty stream, and then
  leaves the disk unchanged. Every non-empty stream, ascending or not, is written in the
  order given: the result is a footer that has the number of entries of the stream, its
  first key as \<^verbatim>\<open>minKey\<close> and its last key as \<^verbatim>\<open>maxKey\<close>; the disk differs from the old
  one by the file at the writer's path; a reader opens on that file and finds this footer;
  and the reader's iterator yields the keys of the stream in the order given, each with the
  value that the reader decodes from what the writer encoded.
\<close>

theorem write_raises_only_on_empty:
  "(es = [] \<longrightarrow> SSTableWriter_write d p bs es = (d, Inl EmptySSTable)) \<and>
   (es \<noteq> [] \<longrightarrow>
      (\<exists>file ftr r.
         SSTableWriter_write d p bs es = (d\<lparr>tables := (tables d)(p \<mapsto> file)\<rparr>, Inr ftr) \<and>
         entryCount ftr = length es \<and> minKey ftr = fst (hd es) \<and> maxKey ftr = fst (last es) \<and>
         SSTableReader_new (d\<lparr>tables := (tables d)(p \<mapsto> file)\<rparr>) p = Inr r \<and>
         footer r = ftr \<and>
         SSTableReader_iterator (d\<lparr>tables := (tables d)(p \<mapsto> file)\<rparr>) r
           = Inr (map (\<lambda>e. (fst e, reader_value (to_json (writer_value (snd e))))) es)))"
proof (intro conjI impI)
  assume "es = []"
  then show "SSTableWriter_write d p bs es = (d, Inl EmptySSTable)" by (simp add: write_empty)
next
  assume ne: "es \<noteq> []"
  let ?d = "d\<lparr>tables := (tables d)(p \<mapsto> written_file bs es)\<rparr>"
  have f: "tables ?d p = Some (written_file bs es)" by simp
  have w: "SSTableWriter_write d p bs es = (?d, Inr (written_footer bs es))"
    using ne by (rule write_eq)
  have ft: "entryCount (written_footer bs es) = length es"
    "minKey (written_footer bs es) = fst (hd es)" "maxKey (written_footer bs es) = fst (last es)"
    by (simp_all add: written_footer_def)
  have rd: "SSTableReader_new ?d p = Inr (table_reader p bs es)"
    using f by (rule reader_new_table)
  have fr: "footer (table_reader p bs es) = written_footer bs es"
    by (simp add: table_reader_def)
  have it: "SSTableReader_iterator ?d (table_reader p bs es)
      = Inr (map (\<lambda>e. (fst e, reader_value (to_json (writer_value (snd e))))) es)"
    using iterator_table[OF f] by (simp only: read_back_stream)
  from w ft rd fr it
  show "\<exists>file ftr r.
         SSTableWriter_write d p bs es = (d\<lparr>tables := (tables d)(p \<mapsto> file)\<rparr>, Inr ftr) \<and>
         entryCount ftr = length es \<and> minKey ftr = fst (hd es) \<and> maxKey ftr = fst (last es) \<and>
         SSTableReader_new (d\<lparr>tables := (tables d)(p \<mapsto> file)\<rparr>) p = Inr r \<and>
         footer r = ftr \<and>
         SSTableReader_iterator (d\<lparr>tables := (tables d)(p \<mapsto> file)\<rparr>) r
           = Inr (map (\<lambda>e. (fst e, reader_value (to_json (writer_value (snd e))))) es)"
    by (intro exI[of _ "written_file bs es"] exI[of _ "written_footer bs es"]
        exI[of _ "table_reader p bs es"] conjI)
qed

theorem write_raises_only_on_empty_witness:
  "[(''b'', Val (Data ''1'')), (''a'', Val (Data ''2''))] \<noteq> [] \<and>
   (\<exists>file ftr r.
      SSTableWriter_write empty_disk ''t.sst'' 4096 [(''b'', Val (Data ''1'')), (''a'', Val (Data ''2''))]
        = (empty_disk\<lparr>tables := (tables empty_disk)(''t.sst'' \<mapsto> file)\<rparr>, Inr ftr) \<and>
      entryCount ftr = 2 \<and> minKey ftr = ''b'' \<and> maxKey ftr = ''a'' \<and>
      SSTableReader_new (empty_disk\<lparr>tables := (tables empty_disk)(''t.sst'' \<mapsto> file)\<rparr>) ''t.sst''
        = Inr r \<and>
      footer r = ftr \<and>
      SSTableReader_iterator (empty_disk\<lparr>tables := (tables empty_disk)(''t.sst'' \<mapsto> file)\<rparr>) r
        = Inr [(''b'', Val (Data ''1'')), (''a'', Val (Data ''2''))]) \<and>
   SSTableWriter_write empty_disk ''t.sst'' 4096 [] = (empty_disk, Inl EmptySSTable)"
  using write_raises_only_on_empty[of "[(''b'', Val (Data ''1'')), (''a'', Val (Data ''2''))]"
          empty_disk "''t.sst''" 4096]
        write_raises_only_on_empty[of "[]" empty_disk "''t.sst''" 4096]
  by (simp add: writer_value_def reader_value_def numeral_2_eq_2)

subsection \<open>C7: writing a stream and reading it back\<close>

text \<open>
  C7 as stated fails. The writer stores the tombstone as the string \<^verbatim>\<open>__TOMBSTONE__\<close> and
  the reader turns every such string into the tombstone, so a value that is this string is
  not read back as it was written: the stream with the one entry \<open>k = '__TOMBSTONE__'\<close> is
  read back as \<open>k = tombstone\<close>.
\<close>

theorem marker_string_round_trip_counterexample:
  "(case SSTableWriter_write empty_disk ''t.sst'' 4096 [(''k'', Val (Str ''__TOMBSTONE__''))] of
      (d', Inl e) \<Rightarrow> False
    | (d', Inr ftr) \<Rightarrow>
        (case SSTableReader_new d' ''t.sst'' of
           Inl e \<Rightarrow> False
         | Inr r \<Rightarrow> SSTableReader_iterator d' r = Inr [(''k'', TOMBSTONE)])) \<and>
   [(''k'', TOMBSTONE)] \<noteq> [(''k'', Val (Str ''__TOMBSTONE__''))]"
proof -
  let ?es = "[(''k'', Val (Str ''__TOMBSTONE__''))]"
  let ?d = "empty_disk\<lparr>tables := (tables empty_disk)(''t.sst'' \<mapsto> written_file 4096 ?es)\<rparr>"
  have f: "tables ?d ''t.sst'' = Some (written_file 4096 ?es)" by simp
  have w: "SSTableWriter_write empty_disk ''t.sst'' 4096 ?es = (?d, Inr (written_footer 4096 ?es))"
    by (rule write_eq) simp
  have rd: "SSTableReader_new ?d ''t.sst'' = Inr (table_reader ''t.sst'' 4096 ?es)"
    using f by (rule reader_new_table)
  have it: "SSTableReader_iterator ?d (table_reader ''t.sst'' 4096 ?es) = Inr [(''k'', TOMBSTONE)]"
    using iterator_table[OF f]
    by (simp add: read_back_stream writer_value_def reader_value_def)
  have ne: "[(''k'', TOMBSTONE)] \<noteq> [(''k'', Val (Str ''__TOMBSTONE__''))]"
    by (simp add: TOMBSTONE_def)
  show ?thesis
    by (simp only: w rd it prod.case sum.case) (simp add: TOMBSTONE_def)
qed



subsection \<open>C9: compaction at the deepest level\<close>

text \<open>
  C9: \<^verbatim>\<open>_compactLevel(level)\<close> with \<open>level \<ge> maxLevels - 1\<close> returns at once. The state
  it returns is the state it was given: the table lists of all levels, the MemTable, the
  counter and the files on disk are unchanged.
\<close>

theorem compactLevel_deepest_noop:
  "int level \<ge> int (maxLevels t) - 1 \<Longrightarrow> LSMTree_compactLevel t level = Inr t"
  by (simp add: LSMTree_compactLevel_def)

theorem compactLevel_deepest_noop_witness:
  "(case LSMTree_new empty_disk [] example_host
           \<lparr>opt_memtableMaxSize = None, opt_level0MaxFiles = None, opt_maxLevels = Some 2\<rparr> of
      Inl e \<Rightarrow> False
    | Inr t \<Rightarrow> int 1 \<ge> int (maxLevels t) - 1 \<and> LSMTree_compactLevel t 1 = Inr t)"
  using compactLevel_deepest_noop[of
      "\<lparr>memtableMaxSize = 4 * 1024 * 1024, level0MaxFiles = 4, maxLevels = 2,
          memtable = MemTable_new (4 * 1024 * 1024), levels = [[], []], sstableCounter = 0,
          fs = \<lparr>wal_log = Some [], tables = Map.empty\<rparr>, host = example_host\<rparr>" 1]
  by (simp add: new_two_levels)

subsection \<open>C10: point lookup of a key that is inside the key range but not stored\<close>

text \<open>
  C10: take a table written from a non-empty stream with strictly ascending keys, and a key
  \<open>k\<close> between the table's smallest and largest key that is not a key of the stream (for
  instance a key between the last key of one block and the first key of the next). Then
  \<^verbatim>\<open>SSTableReader.get(k)\<close> returns \<^verbatim>\<open>undefined\<close> and raises no error; the index search
  returns the last block whose start key is at most \<open>k\<close>, that block is loaded, and the
  binary search inside it finds no entry.
\<close>

theorem get_absent_key_inside_table:
  fixes es :: "(string \<times> jsval) list"
  assumes srt: "sorted_wrt (<) (map fst es)" and ne: "es \<noteq> []"
    and w: "SSTableWriter_write d p bs es = (d', Inr ftr)"
    and rd: "SSTableReader_new d' p = Inr r"
    and lo: "minKey (footer r) \<le> k" and hi: "k \<le> maxKey (footer r)"
    and miss: "k \<notin> fst ` set es"
  shows "SSTableReader_get d' r k = Inr Undefined \<and>
         (\<exists>i < length (index r).
            findBlockIndex (index r) k = int i \<and>
            startKey (index r ! i) \<le> k \<and>
            (\<forall>j < length (index r). i < j \<longrightarrow> k < startKey (index r ! j)) \<and>
            (\<exists>entries. loadBlock d' r (index r ! i) = Inr entries \<and>
                        binarySearchBlock entries k = None))"
proof -
  from w ne have d': "d' = d\<lparr>tables := (tables d)(p \<mapsto> written_file bs es)\<rparr>"
    by (simp add: write_eq)
  then have f: "tables d' p = Some (written_file bs es)" by simp
  with rd have r: "r = table_reader p bs es" by (simp add: reader_new_table)
  have none: "map_of (stored_of (written_entries es)) k = None"
    using miss by (simp add: map_of_eq_None_iff stored_of_def written_entries_def image_image)
  have g: "SSTableReader_get d' r k = Inr Undefined"
    unfolding r using get_table[OF srt ne f, of k] none by simp
  from lo have "fst (hd es) \<le> k" by (simp add: r)
  from block_of_key[OF srt ne this, of bs] obtain i where
    i: "i < length (written_groups bs es)"
       "findBlockIndex (written_index bs es) k = int i"
       "startKey (written_index bs es ! i) \<le> k"
       "\<forall>j < length (written_groups bs es). i < j \<longrightarrow> k < startKey (written_index bs es ! j)"
    by blast
  have fp: "tables d' (filePath r) = Some (written_file bs es)" using f by (simp add: r)
  have ld: "loadBlock d' r (written_index bs es ! i) = Inr (stored_of (written_groups bs es ! i))"
    using fp i(1) by (rule loadBlock_written)
  have "\<forall>e \<in> set (stored_of (written_groups bs es ! i)). fst e \<noteq> k"
  proof
    fix e assume "e \<in> set (stored_of (written_groups bs es ! i))"
    then obtain x where x: "x \<in> set (written_groups bs es ! i)" "fst e = fst x"
      by (auto simp: stored_of_def)
    with i(1) have "x \<in> set (concat (written_groups bs es))" by auto
    then have "fst x \<in> fst ` set es"
      by (force simp: concat_written_groups written_entries_def)
    with miss x show "fst e \<noteq> k" by auto
  qed
  then have "binarySearchBlock (stored_of (written_groups bs es ! i)) k = None"
    by (rule binarySearchBlock_miss)
  with ld i g show ?thesis
    by (auto simp: r written_index_length)
qed

theorem get_absent_key_inside_table_witness:
  "sorted_wrt (<) (map fst [(''a'', Val (Data ''1'')), (''c'', Val (Data ''2'')), (''e'', Val (Data ''3''))]) \<and>
   SSTableWriter_write empty_disk ''t.sst'' 30
      [(''a'', Val (Data ''1'')), (''c'', Val (Data ''2'')), (''e'', Val (Data ''3''))]
     = (empty_disk\<lparr>tables := (tables empty_disk)(''t.sst'' \<mapsto>
           written_file 30 [(''a'', Val (Data ''1'')), (''c'', Val (Data ''2'')), (''e'', Val (Data ''3''))])\<rparr>,
        Inr (written_footer 30 [(''a'', Val (Data ''1'')), (''c'', Val (Data ''2'')), (''e'', Val (Data ''3''))])) \<and>
   SSTableReader_new (empty_disk\<lparr>tables := (tables empty_disk)(''t.sst'' \<mapsto>
           written_file 30 [(''a'', Val (Data ''1'')), (''c'', Val (Data ''2'')), (''e'', Val (Data ''3''))])\<rparr>) ''t.sst''
     = Inr (table_reader ''t.sst'' 30 [(''a'', Val (Data ''1'')), (''c'', Val (Data ''2'')), (''e'', Val (Data ''3''))]) \<and>
   map startKey (index (table_reader ''t.sst'' 30 [(''a'', Val (Data ''1'')), (''c'', Val (Data ''2'')), (''e'', Val (Data ''3''))]))
     = [''a'', ''c'', ''e''] \<and>
   map endKey (index (table_reader ''t.sst'' 30 [(''a'', Val (Data ''1'')), (''c'', Val (Data ''2'')), (''e'', Val (Data ''3''))]))
     = [''a'', ''c'', ''e''] \<and>
   ''a'' \<le> ''b'' \<and> ''b'' \<le> ''e'' \<and>
   ''b'' \<notin> fst ` set [(''a'', Val (Data ''1'')), (''c'', Val (Data ''2'')), (''e'', Val (Data ''3''))] \<and>
   SSTableReader_get (empty_disk\<lparr>tables := (tables empty_disk)(''t.sst'' \<mapsto>
           written_file 30 [(''a'', Val (Data ''1'')), (''c'', Val (Data ''2'')), (''e'', Val (Data ''3''))])\<rparr>)
      (table_reader ''t.sst'' 30 [(''a'', Val (Data ''1'')), (''c'', Val (Data ''2'')), (''e'', Val (Data ''3''))]) ''b''
     = Inr Undefined \<and>
   findBlockIndex (index (table_reader ''t.sst'' 30
       [(''a'', Val (Data ''1'')), (''c'', Val (Data ''2'')), (''e'', Val (Data ''3''))])) ''b'' = 0"
proof -
  let ?es = "[(''a'', Val (Data ''1'')), (''c'', Val (Data ''2'')), (''e'', Val (Data ''3''))]"
  let ?d = "empty_disk\<lparr>tables := (tables empty_disk)(''t.sst'' \<mapsto> written_file 30 ?es)\<rparr>"
  let ?r = "table_reader ''t.sst'' 30 ?es"
  have srt: "sorted_wrt (<) (map fst ?es)" by simp
  have ne: "?es \<noteq> []" by simp
  have w: "SSTableWriter_write empty_disk ''t.sst'' 30 ?es = (?d, Inr (written_footer 30 ?es))"
    using ne by (rule write_eq)
  have "tables ?d ''t.sst'' = Some (written_file 30 ?es)" by simp
  then have rd: "SSTableReader_new ?d ''t.sst'' = Inr ?r"
    by (rule reader_new_table)
  have lo': "''a'' \<le> ''b''" and hi': "''b'' \<le> ''e''" by simp_all
  have lo: "minKey (footer ?r) \<le> ''b''" and hi: "''b'' \<le> maxKey (footer ?r)"
    by simp_all
  have miss: "''b'' \<notin> fst ` set ?es" by simp
  have ix: "index ?r = written_index 30 ?es" by (rule table_reader_sel)
  from get_absent_key_inside_table[OF srt ne w rd lo hi miss]
  obtain i where g: "SSTableReader_get ?d ?r ''b'' = Inr Undefined"
    and i: "i < length (index ?r)" "findBlockIndex (index ?r) ''b'' = int i"
      "startKey (index ?r ! i) \<le> ''b''"
    by blast
  have sk: "map startKey (index ?r) = [''a'', ''c'', ''e'']"
    and ek: "map endKey (index ?r) = [''a'', ''c'', ''e'']"
    unfolding ix by (rule three_blocks)+
  have len: "length (index ?r) = 3" using arg_cong[OF sk, of length] by simp
  have s1: "startKey (index ?r ! 1) = ''c''"
    using arg_cong[OF sk, of "\<lambda>xs. xs ! 1"] len by (simp only: nth_map) simp
  have "i = 0"
  proof (rule ccontr)
    assume "i \<noteq> 0"
    then have "1 \<le> i" by simp
    moreover have "i < length (written_index 30 ?es)" using i(1) unfolding ix .
    ultimately have "startKey (written_index 30 ?es ! 1) \<le> startKey (written_index 30 ?es ! i)"
      by (rule index_sorted_start_mono[OF written_index_sorted[OF srt]])
    then have "''c'' \<le> startKey (index ?r ! i)"
      using s1 by (simp only: ix)
    then have "''c'' \<le> ''b''"
      using i(3) by (rule order.trans)
    then show False by simp
  qed
  with i(2) have fb: "findBlockIndex (index ?r) ''b'' = 0" by simp
  show ?thesis
    by (intro conjI srt w rd sk ek lo' hi' miss g fb)
qed

subsection \<open>C1: a deletion that has been flushed\<close>

text \<open>
  C1 evaluated on the code. The MemTable marks a deletion with its own symbol
  (\<^const>\<open>MemTable_TOMBSTONE\<close>), the writer recognises only the symbol of the registry
  (\<^const>\<open>TOMBSTONE\<close>), so a flushed deletion is written as an entry without a value and read
  back as \<^verbatim>\<open>undefined\<close>, which every reader takes for "not found here".
  First scenario (each write flushes, no compaction): after \<^verbatim>\<open>set(k, v)\<close>, flush,
  \<^verbatim>\<open>delete(k)\<close>, flush, \<^verbatim>\<open>get(k)\<close> returns \<open>v\<close>: the flushed deletion does not shadow the
  older value. Second scenario (two levels, compaction at two Level-0 files): after the same
  operations and the compaction of Level 0, Level 0 is empty and the table of the deepest
  level still has an entry for \<open>k\<close>; \<^verbatim>\<open>get(k)\<close> is \<^verbatim>\<open>undefined\<close> there only because that
  entry has no value.
\<close>

theorem flushed_tombstone_is_lost:
  "then_do (LSMTree_new empty_disk [] h opts_flush_each) (\<lambda>t.
   then_do (LSMTree_set t ''k'' (Val (Str ''v''))) (\<lambda>t.
   then_do (LSMTree_delete t ''k'') (\<lambda>t.
   LSMTree_get t ''k''))) = Inr (Val (Str ''v'')) \<and>
   then_do (LSMTree_new empty_disk [] h opts_compact_second) (\<lambda>t.
   then_do (LSMTree_set t ''k'' (Val (Str ''v''))) (\<lambda>t.
   then_do (LSMTree_delete t ''k'') (\<lambda>t.
   then_do (level_at (levels t) 0) (\<lambda>level0.
   then_do (level_at (levels t) 1) (\<lambda>deepest.
   then_do (iterate_all (fs t) deepest) (\<lambda>entries.
   then_do (LSMTree_get t ''k'') (\<lambda>found.
   Inr (length level0, map filePath deepest, entries, found))))))))
     = Inr (0, [''level1_2.sst''], [(''k'', Undefined)], Undefined)"
  by (simp only: new_fresh then_do.simps) code_simp

subsection \<open>C2: replay of a deletion on open\<close>

text \<open>
  C2 evaluated on the code. \<^verbatim>\<open>WriteAheadLog.recover\<close> applies a DELETE record with
  \<^verbatim>\<open>store.delete\<close>, so the key is missing from the map it returns, and the branch of
  \<^verbatim>\<open>_recover\<close> that would call \<^verbatim>\<open>memtable.delete\<close> is never taken. Scenario: \<^verbatim>\<open>set(k, v)\<close>
  is flushed to a Level-0 table, \<^verbatim>\<open>delete(k)\<close> stays in the MemTable and the log, where
  \<^verbatim>\<open>get(k)\<close> is \<^verbatim>\<open>undefined\<close>. After the directory is opened again, the log still holds the
  DELETE record, the recovered MemTable has nothing for \<open>k\<close> (no tombstone), and
  \<^verbatim>\<open>get(k)\<close> returns \<open>v\<close> from the table.
\<close>

theorem reopen_forgets_delete:
  "then_do (LSMTree_new empty_disk [] h opts_flush_at_80) (\<lambda>t.
   then_do (LSMTree_set t ''k'' (Val (Str ''vvvvvvvvvv''))) (\<lambda>t.
   then_do (LSMTree_delete t ''k'') (\<lambda>t.
   then_do (LSMTree_get t ''k'') (\<lambda>before.
   then_do (LSMTree_new (fs t) [''level0_0.sst'', ''wal.log''] h opts_flush_at_80) (\<lambda>t'.
   then_do (LSMTree_get t' ''k'') (\<lambda>after.
   Inr (wal_log (fs t), before, MemTable_get ''k'' (memtable t'), after)))))))
     = Inr (Some [Record ''DELETE'' ''k'' None], Undefined, Undefined, Val (Str ''vvvvvvvvvv''))"
  by (simp only: c2_new c2_set c2_delete c2_reopen c2_observe then_do.simps)

subsection \<open>C3: range scans\<close>

text \<open>
  C3 evaluated on the code. With the deletion flushed (first scenario of C1),
  \<^verbatim>\<open>range\<close> returns the deleted key \<open>k\<close>, with the value \<^verbatim>\<open>undefined\<close>: the entry read
  from the table is neither of the two tombstone symbols the filter looks for. While the
  deletion is still in the MemTable the same range is empty.
\<close>

theorem range_returns_flushed_deleted_key:
  "then_do (LSMTree_new empty_disk [] h opts_flush_each) (\<lambda>t.
   then_do (LSMTree_set t ''k'' (Val (Str ''v''))) (\<lambda>t.
   then_do (LSMTree_delete t ''k'') (\<lambda>t.
   LSMTree_range t ''a'' ''z''))) = Inr [(''k'', Undefined)] \<and>
   then_do (LSMTree_new empty_disk [] h opts_no_flush) (\<lambda>t.
   then_do (LSMTree_set t ''k'' (Val (Str ''v''))) (\<lambda>t.
   then_do (LSMTree_delete t ''k'') (\<lambda>t.
   LSMTree_range t ''a'' ''z''))) = Inr []"
  by (simp only: new_fresh new_no_flush then_do.simps) code_simp

subsection \<open>C4: the order of Level 0 after open\<close>

text \<open>
  C4 evaluated on the code. The directory holds two Level-0 tables written by the writer,
  \<^verbatim>\<open>level0_9.sst\<close> with \<open>k = old\<close> and the newer \<^verbatim>\<open>level0_10.sst\<close> with \<open>k = new\<close>.
  The directory listing gives the names in byte order, \<^verbatim>\<open>level0_10.sst\<close> first. \<^verbatim>\<open>_recover\<close>
  pushes the readers in that order and does not sort them, so the Level-0 list is
  \<open>[10, 9]\<close>, the point read consults \<^verbatim>\<open>level0_9.sst\<close> first and returns \<open>old\<close>.
\<close>

theorem level0_order_after_open:
  "then_do (LSMTree_new
             (fst (SSTableWriter_write
                    (fst (SSTableWriter_write empty_disk ''level0_9.sst'' 4096
                            [(''k'', Val (Str ''old''))]))
                    ''level0_10.sst'' 4096 [(''k'', Val (Str ''new''))]))
             [''level0_10.sst'', ''level0_9.sst''] h opts_no_flush) (\<lambda>t.
   then_do (LSMTree_get t ''k'') (\<lambda>found.
   Inr (map (map filePath) (levels t), found)))
     = Inr ([[''level0_10.sst'', ''level0_9.sst''], []], Val (Str ''old''))"
  by (simp only: two_tables_written two_tables_open two_tables_observe then_do.simps)

subsection \<open>C8: the file counter after open\<close>

text \<open>
  C8 as stated fails. The counter and the numbers read from file names are doubles. A
  directory holds the table \<^verbatim>\<open>level0_9007199254740992.sst\<close>, whose sequence number is
  \<open>2\<^sup>5\<^sup>3\<close>. \<^verbatim>\<open>_recover\<close> sets the counter to \<open>2\<^sup>5\<^sup>3 + 1\<close>, which is \<open>2\<^sup>5\<^sup>3\<close> again: after open
  the counter equals the sequence number in the file name, and the name for the next flush
  is the name of the table that is there. The next write that flushes replaces the content
  of that file, and Level 0 then has two readers on the one file; the counter stays where
  it is.
\<close>

theorem next_seq_at_limit_counterexample:
  "then_do (LSMTree_new
             (fst (SSTableWriter_write empty_disk ''level0_9007199254740992.sst'' 4096
                     [(''a'', Val (Str ''old''))]))
             [''level0_9007199254740992.sst''] example_host opts_flush_at_80) (\<lambda>t.
   then_do (LSMTree_set t ''k'' (Val (Str ''vvvvvvvvvv''))) (\<lambda>t2.
   then_do (level_at (levels t2) 0) (\<lambda>level0.
   Inr (parseInt ''9007199254740992'', sstableCounter t,
        sst_name (host t) 0 (sstableCounter t),
        tables (fs t) ''level0_9007199254740992.sst'',
        tables (fs t2) ''level0_9007199254740992.sst'',
        map filePath level0))))
     = Inr (9007199254740992, 9007199254740992, ''level0_9007199254740992.sst'',
            Some (written_file 4096 [(''a'', Val (Str ''old''))]),
            Some (written_file 4096 [(''k'', Val (Str ''vvvvvvvvvv''))]),
            [''level0_9007199254740992.sst'', ''level0_9007199254740992.sst''])
   \<and> written_file 4096 [(''a'', Val (Str ''old''))]
       \<noteq> written_file 4096 [(''k'', Val (Str ''vvvvvvvvvv''))]"
  by (simp add: limit_written limit_open limit_set limit_numbers limit_files_differ level_at_def)



end
